theory Spec2Isabelle
  imports Main "HOL-Library.Log_Nat"
begin

section \<open>JavaScript values read by the backend\<close>

text \<open>
  The request body is whatever \<^verbatim>\<open>express.json()\<close> leaves in \<^verbatim>\<open>req.body\<close>: a parsed
  JSON value, or \<^verbatim>\<open>undefined\<close> when there is none. A finite JavaScript number is a
  rational; a JSON numeral too large for a double parses to an infinity.
  An object is the list of its own properties; \<open>map_of\<close> reads it.
\<close>

datatype jsnum = Finite rat | PosInfinity | NegInfinity | NaN

datatype jsval =
    JUndefined
  | JNull
  | JBool bool
  | JNum jsnum
  | JStr string
  | JArr "jsval list"
  | JObj "(string \<times> jsval) list"

datatype error = TypeError

text \<open>ToBoolean, as used by \<^verbatim>\<open>!\<close>, \<^verbatim>\<open>!!\<close> and \<^verbatim>\<open>||\<close>.\<close>

fun truthy :: "jsval \<Rightarrow> bool" where
  "truthy JUndefined = False"
| "truthy JNull = False"
| "truthy (JBool b) = b"
| "truthy (JNum n) = (n \<noteq> Finite 0 \<and> n \<noteq> NaN)"
| "truthy (JStr s) = (s \<noteq> [])"
| "truthy (JArr xs) = True"
| "truthy (JObj kvs) = True"

text \<open>\<^verbatim>\<open>a || b\<close> and \<^verbatim>\<open>a ?? b\<close> on values.\<close>

definition js_or :: "jsval \<Rightarrow> jsval \<Rightarrow> jsval" where
  "js_or a b = (if truthy a then a else b)"

definition js_nullish :: "jsval \<Rightarrow> jsval \<Rightarrow> jsval" where
  "js_nullish a b = (if a = JUndefined \<or> a = JNull then b else a)"

text \<open>
  Property read \<^verbatim>\<open>v.k\<close>. Reading a property of \<^verbatim>\<open>undefined\<close> or \<^verbatim>\<open>null\<close> throws a
  TypeError. The keys the server reads (\<^verbatim>\<open>log\<close>, \<^verbatim>\<open>severity\<close>, \<^verbatim>\<open>s\<close>, \<^verbatim>\<open>msg\<close>,
  \<^verbatim>\<open>is_anomaly\<close>, \<^verbatim>\<open>anomaly_score\<close>, \<^verbatim>\<open>reason\<close>, \<^verbatim>\<open>entities\<close>, \<^verbatim>\<open>model_used\<close>) name no
  built-in property of a boolean, number, string, array or object, so on those values
  the read finds an own property of an object or nothing.
\<close>

fun get_prop :: "jsval \<Rightarrow> string \<Rightarrow> error + jsval" where
  "get_prop JUndefined k = Inl TypeError"
| "get_prop JNull k = Inl TypeError"
| "get_prop (JObj kvs) k = (case map_of kvs k of None \<Rightarrow> Inr JUndefined | Some v \<Rightarrow> Inr v)"
| "get_prop v k = Inr JUndefined"

text \<open>Optional chaining \<^verbatim>\<open>v?.k\<close>: no read, and no exception, on \<^verbatim>\<open>undefined\<close> and \<^verbatim>\<open>null\<close>.\<close>

definition opt_get :: "jsval \<Rightarrow> string \<Rightarrow> error + jsval" where
  "opt_get v k = (if v = JUndefined \<or> v = JNull then Inr JUndefined else get_prop v k)"

definition bind_res :: "error + 'a \<Rightarrow> ('a \<Rightarrow> error + 'b) \<Rightarrow> error + 'b" where
  "bind_res m f = (case m of Inl e \<Rightarrow> Inl e | Inr x \<Rightarrow> f x)"

section \<open>Double-precision arithmetic\<close>

text \<open>
  JavaScript numbers are IEEE 754 doubles, and every arithmetic operation returns the
  double nearest to the exact result, ties to the even significand. A finite double is
  a rational, so \<open>fl\<close> rounds a rational to the nearest double: the unit in the last
  place of \<open>x\<close> is \<open>2\<close> to the power \<open>ilog2 x - 52\<close> (\<open>- 1074\<close> for subnormals).
  \<open>fl\<close> itself does not overflow: the statistics stay far below \<open>2 ^ 1024\<close>, and where a
  string is read as a number, \<open>to_double\<close> below gives the infinity.
\<close>

definition pow2 :: "int \<Rightarrow> rat" where
  "pow2 e = (if 0 \<le> e then 2 ^ nat e else 1 / 2 ^ nat (- e))"

text \<open>\<open>\<lfloor>log\<^sub>2 x\<rfloor>\<close> for positive \<open>x\<close>, from the bit lengths of numerator and denominator.\<close>

definition ilog2 :: "rat \<Rightarrow> int" where
  "ilog2 x = (case quotient_of x of (p, q) \<Rightarrow>
                let e = bitlen p - bitlen q in if pow2 e \<le> x then e else e - 1)"

definition round_half_even :: "rat \<Rightarrow> int" where
  "round_half_even x =
     (let f = \<lfloor>x\<rfloor>; d = x - of_int f
      in if d < 1 / 2 then f else if 1 / 2 < d then f + 1 else if even f then f else f + 1)"

definition fl_pos :: "rat \<Rightarrow> rat" where
  "fl_pos x = (let u = pow2 (max (ilog2 x - 52) (- 1074)) in of_int (round_half_even (x / u)) * u)"

definition fl :: "rat \<Rightarrow> rat" where
  "fl x = (if x = 0 then 0 else if x < 0 then - fl_pos (- x) else fl_pos x)"

text \<open>The operators \<^verbatim>\<open>/\<close> and \<^verbatim>\<open>*\<close> on doubles, and \<^verbatim>\<open>Math.round\<close> (ties towards \<open>+\<infinity>\<close>).\<close>

definition js_div :: "rat \<Rightarrow> rat \<Rightarrow> rat" where
  "js_div x y = fl (x / y)"

definition js_mul :: "rat \<Rightarrow> rat \<Rightarrow> rat" where
  "js_mul x y = fl (x * y)"

definition Math_round :: "rat \<Rightarrow> rat" where
  "Math_round x = of_int \<lfloor>x + 1 / 2\<rfloor>"

section \<open>Numbers and strings\<close>

text \<open>
  The conversions that \<^verbatim>\<open>parseInt\<close> and the schema's casts make between strings and
  numbers. White space, of the 8-bit characters: tab, line feed, vertical tab, form
  feed, carriage return, space, no-break space.
\<close>

definition is_ws :: "char \<Rightarrow> bool" where
  "is_ws c = (of_char c \<in> {9, 10, 11, 12, 13, 32, 160 :: nat})"

definition is_digit :: "char \<Rightarrow> bool" where
  "is_digit c = (48 \<le> (of_char c :: nat) \<and> (of_char c :: nat) \<le> 57)"

definition digits_value :: "string \<Rightarrow> int" where
  "digits_value z = foldl (\<lambda>n c. 10 * n + (int (of_char c) - 48)) 0 z"

definition strip_sign :: "string \<Rightarrow> int \<times> string" where
  "strip_sign s = (case s of
                     [] \<Rightarrow> (1, [])
                   | c # r \<Rightarrow> if c = CHR ''-'' then (- 1, r)
                             else if c = CHR ''+'' then (1, r)
                             else (1, s))"

definition pow10 :: "int \<Rightarrow> rat" where
  "pow10 e = (if 0 \<le> e then 10 ^ nat e else 1 / 10 ^ nat (- e))"

text \<open>The number of decimal digits of a positive integer.\<close>

function dec_len :: "int \<Rightarrow> int" where
  "dec_len n = (if n \<le> 0 then 0 else dec_len (n div 10) + 1)"
  by pat_completeness auto

termination
  by (relation "measure nat") auto

declare dec_len.simps [simp del]

text \<open>The decimal exponent \<open>n\<close> of a positive \<open>x\<close>: \<open>10 ^ (n - 1) \<le> x < 10 ^ n\<close>.\<close>

definition dec_exp :: "rat \<Rightarrow> int" where
  "dec_exp x = (case quotient_of x of (p, q) \<Rightarrow>
                  let e = dec_len p - dec_len q in if pow10 e \<le> x then e + 1 else e)"

function digits_of :: "int \<Rightarrow> string" where
  "digits_of n = (if n < 10 then [char_of (48 + n)]
                  else digits_of (n div 10) @ [char_of (48 + n mod 10)])"
  by pat_completeness auto

termination
  by (relation "measure nat") auto

declare digits_of.simps [simp del]

text \<open>
  \<^verbatim>\<open>Number.prototype.toString\<close> on a positive double \<open>x\<close>: the digits are those of the
  integer \<open>s\<close> with the fewest digits \<open>k\<close> such that \<open>s \<times> 10 ^ (n - k)\<close> rounds to \<open>x\<close>, the
  closest to \<open>x\<close> when several do; seventeen digits always suffice. The candidates with
  \<open>k\<close> digits lie next to \<open>x\<close> scaled to \<open>k\<close> digits.
\<close>

definition digit_candidates :: "rat \<Rightarrow> nat \<Rightarrow> (int \<times> int) list" where
  "digit_candidates x k =
     filter (\<lambda>(s, n). 10 ^ (k - 1) \<le> s \<and> s < 10 ^ k \<and> fl (of_int s * pow10 (n - int k)) = x)
       (concat (map (\<lambda>n. [(\<lfloor>x * pow10 (int k - n)\<rfloor>, n), (\<lfloor>x * pow10 (int k - n)\<rfloor> + 1, n)])
                  [dec_exp x, dec_exp x + 1]))"

definition closer :: "rat \<Rightarrow> nat \<Rightarrow> int \<times> int \<Rightarrow> int \<times> int \<Rightarrow> int \<times> int" where
  "closer x k a b =
     (let da = \<bar>of_int (fst a) * pow10 (snd a - int k) - x\<bar>;
          db = \<bar>of_int (fst b) * pow10 (snd b - int k) - x\<bar>
      in if db < da \<or> (db = da \<and> even (fst b) \<and> odd (fst a)) then b else a)"

fun shortest_from :: "rat \<Rightarrow> nat \<Rightarrow> nat \<Rightarrow> int \<times> int \<times> nat" where
  "shortest_from x k 0 = (\<lfloor>x * pow10 (int k - dec_exp x)\<rfloor>, dec_exp x, k)"
| "shortest_from x k (Suc fuel) =
     (case digit_candidates x k of
        [] \<Rightarrow> shortest_from x (Suc k) fuel
      | c # cs \<Rightarrow> (case foldl (closer x k) c cs of (s, n) \<Rightarrow> (s, n, k)))"

text \<open>The digits \<open>ds\<close> with the decimal point after the first \<open>n\<close>, or in exponent form.\<close>

definition format_digits :: "string \<Rightarrow> int \<Rightarrow> string" where
  "format_digits ds n =
     (let k = int (length ds)
      in if k \<le> n \<and> n \<le> 21 then ds @ replicate (nat (n - k)) (CHR ''0'')
         else if 0 < n \<and> n \<le> 21 then take (nat n) ds @ ''.'' @ drop (nat n) ds
         else if - 6 < n \<and> n \<le> 0 then ''0.'' @ replicate (nat (- n)) (CHR ''0'') @ ds
         else (if k = 1 then ds else take 1 ds @ ''.'' @ drop 1 ds) @ ''e'' @
              (if 0 \<le> n - 1 then ''+'' else ''-'') @ digits_of \<bar>n - 1\<bar>)"

definition positive_toString :: "rat \<Rightarrow> string" where
  "positive_toString x =
     (case shortest_from (fl x) 1 17 of (s, n, k) \<Rightarrow> format_digits (digits_of s) n)"

definition Number_toString :: "jsnum \<Rightarrow> string" where
  "Number_toString v =
     (case v of
        NaN \<Rightarrow> ''NaN''
      | PosInfinity \<Rightarrow> ''Infinity''
      | NegInfinity \<Rightarrow> ''-Infinity''
      | Finite x \<Rightarrow> if x = 0 then ''0''
                    else if x < 0 then ''-'' @ positive_toString (- x)
                    else positive_toString x)"

text \<open>
  \<^verbatim>\<open>Number(string)\<close>: white space is trimmed at both ends; the empty string is \<open>0\<close>; then
  a binary, octal or hexadecimal literal without sign, or \<^verbatim>\<open>Infinity\<close> or a decimal
  literal with an optional sign, fraction and exponent; anything else is \<^verbatim>\<open>NaN\<close>. The
  value is the nearest double, an infinity when rounding reaches \<open>2 ^ 1024\<close>, that is
  the binary exponent 1024.
\<close>

definition to_double :: "rat \<Rightarrow> jsnum" where
  "to_double x = (let y = fl x
                  in if y = 0 then Finite 0
                     else if 1024 \<le> ilog2 \<bar>y\<bar> then (if 0 < y then PosInfinity else NegInfinity)
                     else Finite y)"

definition trim_ws :: "string \<Rightarrow> string" where
  "trim_ws s = rev (dropWhile is_ws (rev (dropWhile is_ws s)))"

definition parse_exponent :: "string \<Rightarrow> int option" where
  "parse_exponent s =
     (case strip_sign s of (sign, r) \<Rightarrow>
        if r \<noteq> [] \<and> list_all is_digit r then Some (sign * digits_value r) else None)"

definition parse_unsigned_decimal :: "string \<Rightarrow> rat option" where
  "parse_unsigned_decimal s =
     (let ip = takeWhile is_digit s;
          r1 = dropWhile is_digit s;
          dot = (r1 \<noteq> [] \<and> hd r1 = CHR ''.'');
          fp = (if dot then takeWhile is_digit (tl r1) else []);
          r2 = (if dot then dropWhile is_digit (tl r1) else r1);
          mant = of_int (digits_value (ip @ fp)) * pow10 (- int (length fp))
      in if ip = [] \<and> fp = [] then None
         else if r2 = [] then Some mant
         else if hd r2 = CHR ''e'' \<or> hd r2 = CHR ''E''
              then map_option (\<lambda>e. mant * pow10 e) (parse_exponent (tl r2))
              else None)"

definition radix_digit :: "char \<Rightarrow> int option" where
  "radix_digit c =
     (let n = (of_char c :: nat)
      in if 48 \<le> n \<and> n \<le> 57 then Some (int n - 48)
         else if 97 \<le> n \<and> n \<le> 102 then Some (int n - 87)
         else if 65 \<le> n \<and> n \<le> 70 then Some (int n - 55)
         else None)"

definition parse_radix :: "int \<Rightarrow> string \<Rightarrow> rat option" where
  "parse_radix b s =
     (if s \<noteq> [] \<and> list_all (\<lambda>c. case radix_digit c of None \<Rightarrow> False | Some d \<Rightarrow> d < b) s
      then Some (of_int (foldl (\<lambda>n c. b * n + (case radix_digit c of None \<Rightarrow> 0 | Some d \<Rightarrow> d)) 0 s))
      else None)"

definition radix_prefix :: "string \<Rightarrow> int option" where
  "radix_prefix s =
     (case s of
        c # d # r \<Rightarrow>
          if c = CHR ''0'' \<and> (d = CHR ''x'' \<or> d = CHR ''X'') then Some 16
          else if c = CHR ''0'' \<and> (d = CHR ''o'' \<or> d = CHR ''O'') then Some 8
          else if c = CHR ''0'' \<and> (d = CHR ''b'' \<or> d = CHR ''B'') then Some 2
          else None
      | _ \<Rightarrow> None)"

definition StringToNumber :: "string \<Rightarrow> jsnum" where
  "StringToNumber str =
     (let s = trim_ws str
      in if s = [] then Finite 0
         else case radix_prefix s of
                Some b \<Rightarrow> (case parse_radix b (drop 2 s) of None \<Rightarrow> NaN | Some v \<Rightarrow> to_double v)
              | None \<Rightarrow>
                 (case strip_sign s of (sign, r) \<Rightarrow>
                    if r = ''Infinity'' then (if sign < 0 then NegInfinity else PosInfinity)
                    else case parse_unsigned_decimal r of
                           None \<Rightarrow> NaN
                         | Some v \<Rightarrow> to_double (of_int sign * v)))"

section \<open>The schema of the log collection\<close>

text \<open>
  \<^verbatim>\<open>logSchema\<close> declares \<^verbatim>\<open>meta.severity\<close> and \<^verbatim>\<open>reason\<close> as \<^verbatim>\<open>String\<close>, \<^verbatim>\<open>anomaly_score\<close> as
  \<^verbatim>\<open>Number\<close>, \<^verbatim>\<open>log\<close> and \<^verbatim>\<open>entities\<close> as \<^verbatim>\<open>Mixed\<close>, and sets no \<^verbatim>\<open>minimize\<close> option. Before
  the insert the object-document mapper casts each value to the declared type, and a
  value it cannot cast makes \<^verbatim>\<open>create\<close> reject; \<open>None\<close> is that failure.

  The cast to \<^verbatim>\<open>String\<close>: \<^verbatim>\<open>null\<close> and \<^verbatim>\<open>undefined\<close> pass; a string is kept; a number or
  boolean is written out; an object holding a non-empty string under \<^verbatim>\<open>_id\<close> becomes
  that string; arrays and all other objects fail.
\<close>

definition castString :: "jsval \<Rightarrow> jsval option" where
  "castString v =
     (case v of
        JUndefined \<Rightarrow> Some JUndefined
      | JNull \<Rightarrow> Some JNull
      | JBool b \<Rightarrow> Some (JStr (if b then ''true'' else ''false''))
      | JNum n \<Rightarrow> Some (JStr (Number_toString n))
      | JStr s \<Rightarrow> Some (JStr s)
      | JArr xs \<Rightarrow> None
      | JObj kvs \<Rightarrow> (case map_of kvs ''_id'' of
                        Some (JStr s) \<Rightarrow> if s \<noteq> [] then Some (JStr s) else None
                      | _ \<Rightarrow> None))"

text \<open>
  The cast to \<^verbatim>\<open>Number\<close>: \<^verbatim>\<open>null\<close> and \<^verbatim>\<open>undefined\<close> pass; the empty string becomes
  \<^verbatim>\<open>null\<close>; any other string and a boolean go through \<^verbatim>\<open>Number(...)\<close>; \<^verbatim>\<open>NaN\<close>, arrays and
  objects fail.
\<close>

definition castNumber :: "jsval \<Rightarrow> jsval option" where
  "castNumber v =
     (case v of
        JUndefined \<Rightarrow> Some JUndefined
      | JNull \<Rightarrow> Some JNull
      | JBool b \<Rightarrow> Some (JNum (Finite (if b then 1 else 0)))
      | JNum n \<Rightarrow> if n = NaN then None else Some (JNum n)
      | JStr s \<Rightarrow> if s = [] then Some JNull
                  else (case StringToNumber s of NaN \<Rightarrow> None | n \<Rightarrow> Some (JNum n))
      | JArr xs \<Rightarrow> None
      | JObj kvs \<Rightarrow> None)"

text \<open>
  Minimizing, the default of the \<^verbatim>\<open>minimize\<close> option: an object whose properties all
  minimize away is not stored, at any depth; the result \<^verbatim>\<open>undefined\<close> is the absent
  field. An object that is an element of an array is kept even when empty. Of a key
  written twice in the list, the first entry is the property. The property names that
  the mapper reserves (\<^verbatim>\<open>__proto__\<close>, \<^verbatim>\<open>constructor\<close>, \<^verbatim>\<open>prototype\<close>) are not told apart
  from the others here.
\<close>

fun minimize_with :: "bool \<Rightarrow> jsval \<Rightarrow> jsval" where
  "minimize_with child (JObj kvs) =
     (let ps = map (\<lambda>p. (fst p, minimize_with False (snd p))) kvs;
          qs = filter (\<lambda>p. snd p \<noteq> JUndefined \<and> map_of ps (fst p) = Some (snd p)) ps
      in if qs = [] \<and> \<not> child then JUndefined else JObj qs)"
| "minimize_with child (JArr xs) = JArr (map (minimize_with True) xs)"
| "minimize_with child v = v"

definition minimize :: "jsval \<Rightarrow> jsval" where
  "minimize v = minimize_with False v"

section \<open>Documents, responses and effects\<close>

text \<open>
  The object literal \<^verbatim>\<open>doc\<close> of the POST handler. Timestamps are milliseconds since the
  epoch. The two flags are JavaScript booleans by construction; the other fields carry
  the caller's value through.
\<close>

record doc =
  timestamp :: int
  meta_source :: string
  meta_severity :: jsval
  log :: jsval
  is_anomaly :: bool
  anomaly_score :: jsval
  reason :: jsval
  entities :: jsval
  model_used :: bool

type_synonym object_id = nat

text \<open>A stored document carries the identifier \<^verbatim>\<open>_id\<close> the store assigned.\<close>

record stored = doc +
  doc_id :: object_id

text \<open>The casts of the schema succeed on the document: \<^verbatim>\<open>create\<close> rejects every other one.\<close>

definition schema_accepts :: "doc \<Rightarrow> bool" where
  "schema_accepts d =
     (castString (meta_severity d) \<noteq> None \<and> castNumber (anomaly_score d) \<noteq> None \<and>
      castString (reason d) \<noteq> None)"

definition cast_or_keep :: "(jsval \<Rightarrow> jsval option) \<Rightarrow> jsval \<Rightarrow> jsval" where
  "cast_or_keep c v = (case c v of Some w \<Rightarrow> w | None \<Rightarrow> v)"

text \<open>
  The record that the store holds, and that \<^verbatim>\<open>create\<close> resolves with, for a document it
  accepted: the three cast values, the two \<^verbatim>\<open>Mixed\<close> values minimized (\<^verbatim>\<open>undefined\<close> is
  the absent field), the date and the booleans as they are, and the identifier. For a
  document that fails a cast there is no such record; \<open>saved_doc\<close> leaves the failing
  value as it is there.
\<close>

definition saved_doc :: "doc \<Rightarrow> object_id \<Rightarrow> stored" where
  "saved_doc d i = \<lparr> timestamp = timestamp d, meta_source = meta_source d,
                      meta_severity = cast_or_keep castString (meta_severity d),
                      log = minimize (log d),
                      is_anomaly = is_anomaly d,
                      anomaly_score = cast_or_keep castNumber (anomaly_score d),
                      reason = cast_or_keep castString (reason d),
                      entities = minimize (entities d),
                      model_used = model_used d, doc_id = i \<rparr>"

text \<open>An entry of \<^verbatim>\<open>recentAnomalies\<close>: the keys \<^verbatim>\<open>timestamp\<close>, \<^verbatim>\<open>msg\<close>, \<^verbatim>\<open>reason\<close>, \<^verbatim>\<open>score\<close>.\<close>

record recent =
  ra_timestamp :: int
  ra_msg :: jsval
  ra_reason :: jsval
  ra_score :: jsval

text \<open>The body of a successful GET /api/stats.\<close>

record stats =
  st_total :: nat
  st_anomalies :: nat
  anomalyRate :: rat
  threatLevel :: string
  recentAnomalies :: "recent list"

datatype body =
    ErrorBody string
  | CreatedBody object_id bool
  | StatsBody stats
  | LogsBody "stored list" nat

text \<open>
  What a request does, in the order it does it: the store acknowledging an insert, an
  event sent to the subscribers with \<^verbatim>\<open>io.emit\<close>, a line on the error console, the
  HTTP response with its status.
\<close>

datatype effect =
    StoreWrite stored
  | Emit string stored
  | ConsoleError string
  | Respond nat body

section \<open>The store\<close>

text \<open>
  \<^verbatim>\<open>LogModel.create(doc)\<close>. Whether the insert is acknowledged is decided outside the
  handler: by the connection to the store, and by the casts of the schema, which
  reject a document before anything is sent. So the outcome is an input: the promise
  rejects with a message and nothing is written, or the insert is acknowledged and the
  promise resolves with the saved document under the identifier the store chose.
  \<open>outcome_possible\<close> tells which outcomes can occur for a document: an insert is
  acknowledged only when the casts succeed.
\<close>

datatype store_outcome = WriteFails string | WriteOk object_id

definition outcome_possible :: "store_outcome \<Rightarrow> doc \<Rightarrow> bool" where
  "outcome_possible outcome d =
     (case outcome of WriteFails m \<Rightarrow> True | WriteOk i \<Rightarrow> schema_accepts d)"

fun LogModel_create ::
  "store_outcome \<Rightarrow> doc \<Rightarrow> stored list \<Rightarrow> effect list \<times> (string + stored) \<times> stored list" where
  "LogModel_create (WriteFails m) d coll = ([], Inl m, coll)"
| "LogModel_create (WriteOk i) d coll =
     ([StoreWrite (saved_doc d i)], Inr (saved_doc d i), coll @ [saved_doc d i])"

text \<open>
  Reads. The store is unavailable (every query rejects with a message), or it answers;
  the number is how many documents fit the single reply batch that a negative limit
  asks for.
\<close>

datatype store_status = Unavailable string | Available nat

text \<open>
  \<^verbatim>\<open>.sort({ timestamp: -1 })\<close>: newest first. The store leaves the order among equal
  timestamps open; here they keep the order in which they were stored.
\<close>

definition sort_desc :: "stored list \<Rightarrow> stored list" where
  "sort_desc xs = sort_key (\<lambda>r. - timestamp r) xs"

text \<open>
  \<^verbatim>\<open>.skip(n)\<close>: the store rejects a negative skip. What it does with a skip beyond its
  integer range is not part of the model; no statement below relies on such a skip.
\<close>

definition db_skip :: "int \<Rightarrow> stored list \<Rightarrow> string + stored list" where
  "db_skip n xs = (if n < 0 then Inl ''Skip value must be non-negative'' else Inr (drop (nat n) xs))"

text \<open>
  \<^verbatim>\<open>.limit(n)\<close>: at most \<open>n\<close> documents; \<open>0\<close> is no limit; a negative \<open>n\<close> asks for \<open>- n\<close>
  documents in a single batch.
\<close>

definition db_limit :: "nat \<Rightarrow> int \<Rightarrow> stored list \<Rightarrow> stored list" where
  "db_limit cap n xs =
     (if 0 < n then take (nat n) xs
      else if n < 0 then take (min (nat (- n)) cap) xs
      else xs)"

definition countDocuments :: "store_status \<Rightarrow> (stored \<Rightarrow> bool) \<Rightarrow> stored list \<Rightarrow> string + nat" where
  "countDocuments status P coll =
     (case status of Unavailable m \<Rightarrow> Inl m | Available cap \<Rightarrow> Inr (length (filter P coll)))"

text \<open>\<^verbatim>\<open>LogModel.find(filter).sort({ timestamp: -1 }).skip(sk).limit(lm).lean()\<close>.\<close>

definition find_sorted ::
  "store_status \<Rightarrow> (stored \<Rightarrow> bool) \<Rightarrow> int \<Rightarrow> int \<Rightarrow> stored list \<Rightarrow> string + stored list" where
  "find_sorted status P sk lm coll =
     (case status of
        Unavailable m \<Rightarrow> Inl m
      | Available cap \<Rightarrow>
          (case db_skip sk (sort_desc (filter P coll)) of
             Inl m \<Rightarrow> Inl m
           | Inr xs \<Rightarrow> Inr (db_limit cap lm xs)))"

section \<open>POST /api/logs\<close>

definition build_doc :: "int \<Rightarrow> jsval \<Rightarrow> error + doc" where
  "build_doc now payload =
     bind_res (get_prop payload ''log'') (\<lambda>lg.
     bind_res (opt_get lg ''severity'') (\<lambda>sev.
     bind_res (opt_get lg ''s'') (\<lambda>s.
     bind_res (get_prop payload ''is_anomaly'') (\<lambda>ia.
     bind_res (get_prop payload ''anomaly_score'') (\<lambda>sc.
     bind_res (get_prop payload ''reason'') (\<lambda>rs.
     bind_res (get_prop payload ''entities'') (\<lambda>en.
     bind_res (get_prop payload ''model_used'') (\<lambda>mu.
       Inr \<lparr> timestamp = now,
             meta_source = ''ai_engine'',
             meta_severity = js_or sev (js_or s (JStr ''I'')),
             log = lg,
             is_anomaly = truthy ia,
             anomaly_score = js_nullish sc (JNum (Finite 0)),
             reason = js_or rs (JStr []),
             entities = js_or en (JObj []),
             model_used = truthy mu \<rparr>))))))))"

text \<open>
  \<^verbatim>\<open>promise.then(f).catch(g)\<close> on a settled promise: \<open>f\<close> runs on the value it resolved
  with, \<open>g\<close> on the message it rejected with.
\<close>

definition then_catch :: "string + 'a \<Rightarrow> ('a \<Rightarrow> effect list) \<Rightarrow> (string \<Rightarrow> effect list) \<Rightarrow> effect list" where
  "then_catch p f g = (case p of Inr x \<Rightarrow> f x | Inl m \<Rightarrow> g m)"

text \<open>The guard \<^verbatim>\<open>!payload || typeof payload.log === 'undefined'\<close>.\<close>

definition invalid_payload :: "jsval \<Rightarrow> error + bool" where
  "invalid_payload payload =
     (if \<not> truthy payload then Inr True
      else bind_res (get_prop payload ''log'') (\<lambda>lg. Inr (lg = JUndefined)))"

text \<open>
  The handler, from the clock reading, the store's outcome, the request body and the
  collection, to the effects in order and the collection afterwards. \<open>Inl\<close> is an
  exception thrown by the handler itself.
\<close>

definition post_api_logs ::
  "int \<Rightarrow> store_outcome \<Rightarrow> jsval \<Rightarrow> stored list \<Rightarrow> error + (effect list \<times> stored list)" where
  "post_api_logs now outcome payload coll =
     bind_res (invalid_payload payload) (\<lambda>invalid.
       if invalid
       then Inr ([Respond 400 (ErrorBody ''Invalid payload: log required'')], coll)
       else bind_res (build_doc now payload) (\<lambda>d.
         case LogModel_create outcome d coll of (w, p, coll') \<Rightarrow>
           Inr (w @ then_catch p
                  (\<lambda>saved. [Emit ''log'' saved, Respond 201 (CreatedBody (doc_id saved) True)])
                  (\<lambda>m. [ConsoleError (''[Backend] DB error: '' @ m),
                         Respond 500 (ErrorBody ''Failed to save log'')]),
                coll')))"

text \<open>The body carries the \<^verbatim>\<open>log\<close> key with a value: what the guard lets through.\<close>

definition has_log :: "jsval \<Rightarrow> bool" where
  "has_log payload =
     (case payload of
        JObj kvs \<Rightarrow> (case map_of kvs ''log'' of None \<Rightarrow> False | Some v \<Rightarrow> v \<noteq> JUndefined)
      | _ \<Rightarrow> False)"

text \<open>The value under a key of a body, \<^verbatim>\<open>undefined\<close> when the key is absent.\<close>

definition field :: "jsval \<Rightarrow> string \<Rightarrow> jsval" where
  "field v k = (case v of JObj kvs \<Rightarrow> (case map_of kvs k of None \<Rightarrow> JUndefined | Some x \<Rightarrow> x)
                | _ \<Rightarrow> JUndefined)"

section \<open>GET /api/stats\<close>

text \<open>The start of the window: \<^verbatim>\<open>now.getTime() - 24 * 60 * 60 * 1000\<close>.\<close>

definition oneDayAgo :: "int \<Rightarrow> int" where
  "oneDayAgo now = now - 24 * 60 * 60 * 1000"

text \<open>The filters \<^verbatim>\<open>{ timestamp: { $gte: oneDayAgo } }\<close>, alone and with \<^verbatim>\<open>is_anomaly: true\<close>.\<close>

definition in_window :: "int \<Rightarrow> stored \<Rightarrow> bool" where
  "in_window now r = (oneDayAgo now \<le> timestamp r)"

definition anomaly_in_window :: "int \<Rightarrow> stored \<Rightarrow> bool" where
  "anomaly_in_window now r = (oneDayAgo now \<le> timestamp r \<and> is_anomaly r)"

text \<open>
  \<^verbatim>\<open>total > 0 ? (anomalies / total) * 100 : 0\<close>, on doubles. The counts are exact doubles
  (they are below \<open>2 ^ 53\<close>).
\<close>

definition anomaly_rate :: "nat \<Rightarrow> nat \<Rightarrow> rat" where
  "anomaly_rate tot anoms =
     (if 0 < tot then js_mul (js_div (of_nat anoms) (of_nat tot)) 100 else 0)"

definition threat_level :: "rat \<Rightarrow> string" where
  "threat_level r =
     (if 10 < r then ''high'' else if 3 < r then ''medium'' else if 0 < r then ''low'' else ''none'')"

text \<open>\<^verbatim>\<open>Math.round(anomalyRate * 100) / 100\<close>.\<close>

definition round2 :: "rat \<Rightarrow> rat" where
  "round2 r = js_div (Math_round (js_mul r 100)) 100"

text \<open>The projection of \<^verbatim>\<open>recentAnomalies.map\<close>; the optional chain \<^verbatim>\<open>a.log?.msg\<close> does not throw.\<close>

definition project :: "stored \<Rightarrow> recent" where
  "project a = \<lparr> ra_timestamp = timestamp a,
                   ra_msg = (case opt_get (log a) ''msg'' of Inr v \<Rightarrow> v | Inl e \<Rightarrow> JUndefined),
                   ra_reason = reason a,
                   ra_score = anomaly_score a \<rparr>"

text \<open>
  The handler, from the clock reading, the store's state and the collection. The three
  queries of \<^verbatim>\<open>Promise.all\<close> read the same collection; one rejection is caught.
\<close>

definition stats_failed :: "string \<Rightarrow> effect list" where
  "stats_failed m = [ConsoleError (''[Backend] Stats error: '' @ m),
                     Respond 500 (ErrorBody ''Failed to fetch stats'')]"

definition get_api_stats :: "int \<Rightarrow> store_status \<Rightarrow> stored list \<Rightarrow> effect list" where
  "get_api_stats now status coll =
     (case countDocuments status (in_window now) coll of
        Inl m \<Rightarrow> stats_failed m
      | Inr tot \<Rightarrow>
     (case countDocuments status (anomaly_in_window now) coll of
        Inl m \<Rightarrow> stats_failed m
      | Inr anoms \<Rightarrow>
     (case find_sorted status (anomaly_in_window now) 0 100 coll of
        Inl m \<Rightarrow> stats_failed m
      | Inr found \<Rightarrow>
          (let rate = anomaly_rate tot anoms;
               level = threat_level rate
           in [Respond 200 (StatsBody \<lparr> st_total = tot,
                                         st_anomalies = anoms,
                                         anomalyRate = round2 rate,
                                         threatLevel = level,
                                         recentAnomalies = map project found \<rparr>)]))))"

section \<open>GET /api/logs\<close>

text \<open>
  A value of \<^verbatim>\<open>req.query\<close>: a string, or an array or object of such when the key is
  repeated or bracketed. \<^verbatim>\<open>parseInt\<close> first turns its argument into a string.
\<close>

datatype qval = QStr string | QArr "qval list" | QObj "(string \<times> qval) list"

fun join_comma :: "string list \<Rightarrow> string" where
  "join_comma [] = []"
| "join_comma [x] = x"
| "join_comma (x # y # ys) = x @ '','' @ join_comma (y # ys)"

fun to_string_q :: "qval \<Rightarrow> string" where
  "to_string_q (QStr s) = s"
| "to_string_q (QArr xs) = join_comma (map to_string_q xs)"
| "to_string_q (QObj kvs) = ''[object Object]''"

text \<open>
  \<^verbatim>\<open>parseInt(string, 10)\<close>: leading white space is dropped, then an optional sign, then
  the longest run of decimal digits is read; no digit gives \<^verbatim>\<open>NaN\<close>, here \<open>None\<close>. The
  result is a double: the integer read, rounded to the nearest double, which changes
  it from \<open>2 ^ 53\<close> on. A run of digits worth \<open>2 ^ 1024\<close> or more (over 300 digits) reads
  as \<^verbatim>\<open>Infinity\<close>, which the integers here do not have: there the rounded integer stands
  in for it.
\<close>

definition parseInt :: "string \<Rightarrow> int option" where
  "parseInt str =
     (case strip_sign (dropWhile is_ws str) of (sign, s) \<Rightarrow>
        let z = takeWhile is_digit s
        in if z = [] then None else Some (sign * \<lfloor>fl (of_int (digits_value z))\<rfloor>))"

text \<open>\<^verbatim>\<open>parseInt(req.query.k, 10)\<close>; an absent key reads as \<^verbatim>\<open>undefined\<close>.\<close>

definition parse_param :: "(string \<times> qval) list \<Rightarrow> string \<Rightarrow> int option" where
  "parse_param query k =
     parseInt (case map_of query k of None \<Rightarrow> ''undefined'' | Some v \<Rightarrow> to_string_q v)"

text \<open>\<^verbatim>\<open>n || d\<close> on numbers: \<open>d\<close> replaces \<^verbatim>\<open>NaN\<close> and zero.\<close>

definition num_or :: "int option \<Rightarrow> int \<Rightarrow> int" where
  "num_or n d = (case n of None \<Rightarrow> d | Some v \<Rightarrow> if v = 0 then d else v)"

definition limit_of :: "(string \<times> qval) list \<Rightarrow> int" where
  "limit_of query = min (num_or (parse_param query ''limit'') 50) 200"

definition skip_of :: "(string \<times> qval) list \<Rightarrow> int" where
  "skip_of query = num_or (parse_param query ''skip'') 0"

definition logs_failed :: "string \<Rightarrow> effect list" where
  "logs_failed m = [ConsoleError (''[Backend] Logs fetch error: '' @ m),
                    Respond 500 (ErrorBody ''Failed to fetch logs'')]"

definition get_api_logs :: "store_status \<Rightarrow> (string \<times> qval) list \<Rightarrow> stored list \<Rightarrow> effect list" where
  "get_api_logs status query coll =
     (let limit = limit_of query; skip = skip_of query
      in case find_sorted status (\<lambda>r. True) skip limit coll of
           Inl m \<Rightarrow> logs_failed m
         | Inr logs \<Rightarrow>
        (case countDocuments status (\<lambda>r. True) coll of
           Inl m \<Rightarrow> logs_failed m
         | Inr n \<Rightarrow> [Respond 200 (LogsBody logs n)]))"

section \<open>The rate as specified, and sample records\<close>

text \<open>
  The anomaly rate in the specification's words: \<^verbatim>\<open>anomalies / total * 100\<close>, \<open>0\<close> when the
  total is \<open>0\<close>, rounded to two decimal places, halves up, all in exact arithmetic.
\<close>

definition spec_anomalyRate :: "nat \<Rightarrow> nat \<Rightarrow> rat" where
  "spec_anomalyRate tot anoms =
     (if tot = 0 then 0
      else of_int \<lfloor>(of_nat anoms / of_nat tot * 100 * 100 + 1 / 2 :: rat)\<rfloor> / 100)"

text \<open>
  A stored record with a given timestamp and anomaly flag, for the examples: what the
  store holds after a POST of \<^verbatim>\<open>{"log": {"msg": "connection accepted"}}\<close>.
\<close>

definition sample :: "int \<Rightarrow> bool \<Rightarrow> stored" where
  "sample t a = \<lparr> timestamp = t, meta_source = ''ai_engine'', meta_severity = JStr ''I'',
                   log = JObj [(''msg'', JStr ''connection accepted'')], is_anomaly = a,
                   anomaly_score = JNum (Finite 0), reason = JStr [], entities = JUndefined,
                   model_used = False, doc_id = 0 \<rparr>"

text \<open>
  The records of \<open>n\<close> further requests, one each millisecond from time 1 on, under the
  identifiers 1 to \<open>n\<close>.
\<close>

definition later_samples :: "nat \<Rightarrow> stored list" where
  "later_samples n = map (\<lambda>k. (sample (int k) False) \<lparr> doc_id := k \<rparr>) [1..<Suc n]"

section \<open>The POST handler, case by case\<close>

lemma bind_res_simps:
  "bind_res (Inl e) f = Inl e"
  "bind_res (Inr x) f = f x"
  by (simp_all add: bind_res_def)

lemma has_log_obj:
  assumes "has_log payload"
  obtains kvs v where "payload = JObj kvs" and "map_of kvs ''log'' = Some v" and "v \<noteq> JUndefined"
  using assms by (cases payload) (auto simp: has_log_def split: option.splits)

lemma invalid_payload_eq: "invalid_payload payload = Inr (\<not> has_log payload)"
  by (cases payload) (auto simp: invalid_payload_def has_log_def bind_res_simps split: option.splits)

lemma get_prop_obj: "get_prop (JObj kvs) k = Inr (field (JObj kvs) k)"
  by (simp add: field_def split: option.splits)

lemma opt_get_field: "opt_get v k = Inr (field v k)"
  by (cases v) (auto simp: opt_get_def field_def split: option.splits)

lemma build_doc_obj:
  "build_doc now (JObj kvs) =
     Inr \<lparr> timestamp = now,
           meta_source = ''ai_engine'',
           meta_severity = js_or (field (field (JObj kvs) ''log'') ''severity'')
                             (js_or (field (field (JObj kvs) ''log'') ''s'') (JStr ''I'')),
           log = field (JObj kvs) ''log'',
           is_anomaly = truthy (field (JObj kvs) ''is_anomaly''),
           anomaly_score = js_nullish (field (JObj kvs) ''anomaly_score'') (JNum (Finite 0)),
           reason = js_or (field (JObj kvs) ''reason'') (JStr []),
           entities = js_or (field (JObj kvs) ''entities'') (JObj []),
           model_used = truthy (field (JObj kvs) ''model_used'') \<rparr>"
  unfolding build_doc_def get_prop_obj opt_get_field bind_res_simps ..

lemma build_doc_total:
  assumes "has_log payload"
  shows "\<exists>d. build_doc now payload = Inr d"
  using assms by (auto elim!: has_log_obj simp: build_doc_obj)

lemma post_invalid:
  assumes "\<not> has_log payload"
  shows "post_api_logs now outcome payload coll =
           Inr ([Respond 400 (ErrorBody ''Invalid payload: log required'')], coll)"
  using assms by (simp add: post_api_logs_def invalid_payload_eq bind_res_simps)

lemma saved_doc_sel:
  "timestamp (saved_doc d i) = timestamp d"
  "meta_source (saved_doc d i) = meta_source d"
  "is_anomaly (saved_doc d i) = is_anomaly d"
  "model_used (saved_doc d i) = model_used d"
  "doc_id (saved_doc d i) = i"
  by (simp_all add: saved_doc_def)

lemma saved_doc_cast:
  "meta_severity (saved_doc d i) = cast_or_keep castString (meta_severity d)"
  "anomaly_score (saved_doc d i) = cast_or_keep castNumber (anomaly_score d)"
  "reason (saved_doc d i) = cast_or_keep castString (reason d)"
  "log (saved_doc d i) = minimize (log d)"
  "entities (saved_doc d i) = minimize (entities d)"
  by (simp_all add: saved_doc_def)

lemma cast_or_keep_Some: "c v = Some w \<Longrightarrow> cast_or_keep c v = w"
  by (simp add: cast_or_keep_def)

lemma castString_string: "castString (JStr x) = Some (JStr x)"
  by (simp add: castString_def)

lemma castNumber_number: "n \<noteq> NaN \<Longrightarrow> castNumber (JNum n) = Some (JNum n)"
  by (simp add: castNumber_def)

lemma minimize_empty: "minimize (JObj []) = JUndefined"
  by (simp add: minimize_def)

lemma minimize_scalar:
  "minimize JUndefined = JUndefined"
  "minimize JNull = JNull"
  "minimize (JBool b) = JBool b"
  "minimize (JNum n) = JNum n"
  "minimize (JStr x) = JStr x"
  by (simp_all add: minimize_def)

lemma castNumber_half: "castNumber (JStr ''0.5'') = Some (JNum (Finite (1 / 2)))"
  by code_simp

lemma minimize_non_container:
  assumes "\<forall>kvs. v \<noteq> JObj kvs" and "\<forall>xs. v \<noteq> JArr xs"
  shows "minimize v = v"
  using assms by (cases v) (simp_all add: minimize_def)

lemma saved_doc_accepted:
  assumes "schema_accepts d"
  shows "castString (meta_severity d) = Some (meta_severity (saved_doc d i))"
    and "castNumber (anomaly_score d) = Some (anomaly_score (saved_doc d i))"
    and "castString (reason d) = Some (reason (saved_doc d i))"
  using assms by (auto simp: schema_accepts_def saved_doc_cast cast_or_keep_def)

lemma post_write_ok:
  assumes "has_log payload" and "build_doc now payload = Inr d"
  shows "post_api_logs now (WriteOk i) payload coll =
           Inr ([StoreWrite (saved_doc d i), Emit ''log'' (saved_doc d i),
                 Respond 201 (CreatedBody i True)], coll @ [saved_doc d i])"
  using assms
  by (simp add: post_api_logs_def invalid_payload_eq bind_res_simps then_catch_def saved_doc_sel)

lemma post_write_fails:
  assumes "has_log payload"
  shows "post_api_logs now (WriteFails m) payload coll =
           Inr ([ConsoleError (''[Backend] DB error: '' @ m),
                 Respond 500 (ErrorBody ''Failed to save log'')], coll)"
proof -
  obtain d where "build_doc now payload = Inr d"
    using build_doc_total [OF assms] by blast
  then show ?thesis
    using assms
    by (simp add: post_api_logs_def invalid_payload_eq bind_res_simps then_catch_def)
qed

lemma cast_failure_answered_500:
  assumes "has_log payload" and "build_doc now payload = Inr d"
    and "\<not> schema_accepts d" and "outcome_possible outcome d"
  shows "\<exists>m. post_api_logs now outcome payload coll =
               Inr ([ConsoleError (''[Backend] DB error: '' @ m),
                     Respond 500 (ErrorBody ''Failed to save log'')], coll)"
proof (cases outcome)
  case (WriteFails m)
  then show ?thesis
    using assms(1) by (simp add: post_write_fails)
next
  case (WriteOk i)
  then have False
    using assms(3,4) by (simp add: outcome_possible_def)
  then show ?thesis ..
qed

lemma emit_position:
  assumes "i < length [StoreWrite s0, Emit e0 s0, Respond c b]"
    and "[StoreWrite s0, Emit e0 s0, Respond c b] ! i = Emit ev s"
  shows "i = 1 \<and> ev = e0 \<and> s = s0"
proof -
  from assms(1) have "i = 0 \<or> i = 1 \<or> i = 2" by auto
  then show ?thesis using assms(2) by auto
qed

lemma no_emit_on_failure:
  assumes "i < length [ConsoleError m, Respond c b]"
  shows "[ConsoleError m, Respond c b] ! i \<noteq> Emit ev s"
proof -
  from assms have "i = 0 \<or> i = 1" by auto
  then show ?thesis by auto
qed

section \<open>The listing, newest first\<close>

lemma sorted_sort_desc: "sorted_wrt (\<lambda>a b. timestamp b \<le> timestamp a) (sort_desc xs)"
proof -
  have "sorted (map (\<lambda>r. - timestamp r) (sort_desc xs))"
    unfolding sort_desc_def by (rule sorted_sort_key)
  then show ?thesis
    by (simp add: sorted_wrt_map)
qed

lemma set_sort_desc: "set (sort_desc xs) = set xs"
  by (simp add: sort_desc_def)

lemma length_sort_desc: "length (sort_desc xs) = length xs"
  by (simp add: sort_desc_def)

lemma length_filter_sort_desc: "length (filter P (sort_desc xs)) = length (filter P xs)"
  by (simp add: sort_desc_def filter_sort)

lemma newest_first_filter_prefix:
  assumes "sorted_wrt (\<lambda>a b. timestamp b \<le> timestamp a) ys"
  shows "filter (\<lambda>r. c \<le> timestamp r) ys = takeWhile (\<lambda>r. c \<le> timestamp r) ys"
  using assms
proof (induction ys)
  case Nil
  then show ?case by simp
next
  case (Cons y ys)
  show ?case
  proof (cases "c \<le> timestamp y")
    case True
    then show ?thesis using Cons by simp
  next
    case False
    then have "\<forall>r\<in>set ys. \<not> c \<le> timestamp r"
      using Cons.prems by auto
    then have "filter (\<lambda>r. c \<le> timestamp r) ys = []"
      by (simp add: filter_empty_conv)
    then show ?thesis using False by simp
  qed
qed

lemma newest_within_limit:
  assumes s: "s \<in> set xs"
    and few: "length (filter (\<lambda>r. timestamp s \<le> timestamp r) xs) \<le> n"
  shows "s \<in> set (take n (sort_desc xs))"
proof -
  let ?P = "\<lambda>r. timestamp s \<le> timestamp r"
  let ?ys = "sort_desc xs"
  have pre: "filter ?P ?ys = takeWhile ?P ?ys"
    using sorted_sort_desc by (rule newest_first_filter_prefix)
  have len: "length (takeWhile ?P ?ys) \<le> n"
    using few by (simp add: pre [symmetric] length_filter_sort_desc)
  have "s \<in> set (filter ?P ?ys)"
    using s by (simp add: set_sort_desc)
  then have "s \<in> set (take (length (takeWhile ?P ?ys)) ?ys)"
    using pre takeWhile_eq_take [of ?P ?ys] by simp
  then show ?thesis
    using set_take_subset_set_take [OF len, of ?ys] by (rule subsetD [rotated])
qed

lemma find_sorted_all:
  "0 \<le> sk \<Longrightarrow> 0 < lm \<Longrightarrow>
   find_sorted (Available cap) (\<lambda>r. True) sk lm coll = Inr (take (nat lm) (drop (nat sk) (sort_desc coll)))"
  by (simp add: find_sorted_def db_skip_def db_limit_def)

lemma get_api_logs_page:
  assumes "0 \<le> skip_of query" and "0 < limit_of query"
  shows "get_api_logs (Available cap) query coll =
           [Respond 200 (LogsBody (take (nat (limit_of query)) (drop (nat (skip_of query)) (sort_desc coll)))
                           (length coll))]"
  using assms by (simp add: get_api_logs_def find_sorted_all countDocuments_def)

lemma skip_of_no_query: "skip_of [] = 0"
  by (simp add: skip_of_def parse_param_def parseInt_def strip_sign_def is_ws_def is_digit_def num_or_def)

lemma limit_of_no_query: "limit_of [] = 50"
  by (simp add: limit_of_def parse_param_def parseInt_def strip_sign_def is_ws_def is_digit_def num_or_def)

lemma build_doc_log_timestamp:
  assumes "has_log payload" and "build_doc now payload = Inr d"
  shows "log d = field payload ''log'' \<and> timestamp d = now"
proof -
  from assms(1) obtain kvs where p: "payload = JObj kvs"
    by (rule has_log_obj)
  show ?thesis
    using assms(2) unfolding p build_doc_obj by auto
qed

lemma field_non_object:
  assumes "\<forall>kvs. v \<noteq> JObj kvs"
  shows "field v k = JUndefined"
  using assms by (cases v) (simp_all add: field_def)

lemma insort_desc_last:
  assumes "\<forall>y\<in>set ys. timestamp x < timestamp y"
  shows "insort_key (\<lambda>r. - timestamp r) x ys = ys @ [x]"
  using assms by (induction ys) auto

lemma sort_desc_ascending:
  assumes "sorted_wrt (\<lambda>a b. timestamp a < timestamp b) xs"
  shows "sort_desc xs = rev xs"
  using assms
proof (induction xs)
  case Nil
  then show ?case by (simp add: sort_desc_def)
next
  case (Cons x xs)
  then have ih: "sort_desc xs = rev xs" and "\<forall>y\<in>set xs. timestamp x < timestamp y"
    by simp_all
  then have "insort_key (\<lambda>r. - timestamp r) x (rev xs) = rev xs @ [x]"
    by (intro insort_desc_last) simp
  then show ?case
    using ih by (simp add: sort_desc_def)
qed

lemma later_samples_sel:
  "length (later_samples n) = n"
  "r \<in> set (later_samples n) \<Longrightarrow> 1 \<le> timestamp r"
  by (auto simp: later_samples_def sample_def)

lemma later_samples_ascending:
  "sorted_wrt (\<lambda>a b. timestamp a < timestamp b) (later_samples n)"
proof -
  have "sorted_wrt (\<lambda>j k. int j < int k) [1..<Suc n]"
    using sorted_wrt_upt [of 1 "Suc n"] by (rule sorted_wrt_mono_rel [rotated]) simp
  then show ?thesis
    by (simp add: later_samples_def sorted_wrt_map sample_def)
qed

lemma post_null_log:
  "post_api_logs 0 (WriteOk 0) (JObj [(''log'', JNull)]) [] =
     Inr ([StoreWrite \<lparr> timestamp = 0, meta_source = ''ai_engine'', meta_severity = JStr ''I'',
                        log = JNull, is_anomaly = False, anomaly_score = JNum (Finite 0),
                        reason = JStr [], entities = JUndefined, model_used = False, doc_id = 0 \<rparr>,
           Emit ''log'' \<lparr> timestamp = 0, meta_source = ''ai_engine'', meta_severity = JStr ''I'',
                        log = JNull, is_anomaly = False, anomaly_score = JNum (Finite 0),
                        reason = JStr [], entities = JUndefined, model_used = False, doc_id = 0 \<rparr>,
           Respond 201 (CreatedBody 0 True)],
          [\<lparr> timestamp = 0, meta_source = ''ai_engine'', meta_severity = JStr ''I'',
             log = JNull, is_anomaly = False, anomaly_score = JNum (Finite 0),
             reason = JStr [], entities = JUndefined, model_used = False, doc_id = 0 \<rparr>])"
  by code_simp

lemma skip_1: "skip_of [(''skip'', QStr ''1'')] = 1" "limit_of [(''skip'', QStr ''1'')] = 50"
  by code_simp+

lemma skipped_single_record:
  "get_api_logs (Available cap) [(''skip'', QStr ''1'')] [s] = [Respond 200 (LogsBody [] 1)]"
proof -
  have "get_api_logs (Available cap) [(''skip'', QStr ''1'')] [s] =
          [Respond 200 (LogsBody (take (nat (limit_of [(''skip'', QStr ''1'')]))
                                    (drop (nat (skip_of [(''skip'', QStr ''1'')])) (sort_desc [s])))
                          (length [s]))]"
    by (rule get_api_logs_page) (simp_all add: skip_1)
  then show ?thesis
    unfolding skip_1 by (simp add: sort_desc_def)
qed

lemma first_page_of_newer:
  assumes "timestamp s = 0"
  shows "get_api_logs (Available cap) [] (s # later_samples 50) =
           [Respond 200 (LogsBody (rev (later_samples 50)) 51)] \<and>
         s \<notin> set (rev (later_samples 50))"
proof -
  have asc: "sorted_wrt (\<lambda>a b. timestamp a < timestamp b) (s # later_samples 50)"
    using later_samples_ascending [of 50] later_samples_sel(2) [of _ 50] assms by fastforce
  have srt: "sort_desc (s # later_samples 50) = rev (later_samples 50) @ [s]"
    using sort_desc_ascending [OF asc] by simp
  have "get_api_logs (Available cap) [] (s # later_samples 50) =
          [Respond 200 (LogsBody (take (nat (limit_of [])) (drop (nat (skip_of []))
                                    (sort_desc (s # later_samples 50))))
                          (length (s # later_samples 50)))]"
    by (rule get_api_logs_page) (simp_all add: skip_of_no_query limit_of_no_query)
  then have "get_api_logs (Available cap) [] (s # later_samples 50) =
           [Respond 200 (LogsBody (rev (later_samples 50)) 51)]"
    unfolding srt skip_of_no_query limit_of_no_query by (simp add: later_samples_sel)
  moreover have "s \<notin> set (rev (later_samples 50))"
    using later_samples_sel(2) [of s 50] assms by auto
  ultimately show ?thesis ..
qed

lemma limit_7: "limit_of [(''limit'', QStr ''7'')] = 7" "skip_of [(''limit'', QStr ''7'')] = 0"
  by code_simp+

section \<open>Claims about POST /api/logs\<close>

text \<open>
  C1. The \<^verbatim>\<open>log\<close> event of a request is emitted only after the store acknowledged the
  write of that very record, which is then in the collection; and when the write of a
  valid payload fails, the request ends with status 500, no event is emitted, nothing
  is written.
\<close>

theorem broadcast_only_after_write:
  "\<exists>tr coll'. post_api_logs now outcome payload coll = Inr (tr, coll') \<and>
     (\<forall>i ev s. i < length tr \<and> tr ! i = Emit ev s \<longrightarrow>
        ev = ''log'' \<and> (\<exists>j<i. tr ! j = StoreWrite s) \<and> s \<in> set coll' \<and>
        outcome = WriteOk (doc_id s)) \<and>
     (\<forall>m. has_log payload \<and> outcome = WriteFails m \<longrightarrow>
        last tr = Respond 500 (ErrorBody ''Failed to save log'') \<and>
        (\<forall>ev s. Emit ev s \<notin> set tr) \<and> (\<forall>s. StoreWrite s \<notin> set tr) \<and> coll' = coll)"
proof (cases "has_log payload")
  case False
  have "post_api_logs now outcome payload coll =
          Inr ([Respond 400 (ErrorBody ''Invalid payload: log required'')], coll)"
    using False by (rule post_invalid)
  moreover have "[Respond 400 (ErrorBody ''Invalid payload: log required'')] ! i \<noteq> Emit ev s"
    if "i < length [Respond 400 (ErrorBody ''Invalid payload: log required'')]" for i ev s
    using that by simp
  ultimately show ?thesis
    using False by blast
next
  case True
  then obtain d where d: "build_doc now payload = Inr d"
    using build_doc_total by blast
  show ?thesis
  proof (cases outcome)
    case (WriteFails m)
    let ?tr = "[ConsoleError (''[Backend] DB error: '' @ m),
                Respond 500 (ErrorBody ''Failed to save log'')]"
    have run: "post_api_logs now outcome payload coll = Inr (?tr, coll)"
      using True WriteFails by (simp add: post_write_fails)
    have "\<forall>i ev s. i < length ?tr \<and> ?tr ! i = Emit ev s \<longrightarrow>
        ev = ''log'' \<and> (\<exists>j<i. ?tr ! j = StoreWrite s) \<and> s \<in> set coll \<and>
        outcome = WriteOk (doc_id s)"
      using no_emit_on_failure by blast
    moreover have "last ?tr = Respond 500 (ErrorBody ''Failed to save log'') \<and>
        (\<forall>ev s. Emit ev s \<notin> set ?tr) \<and> (\<forall>s. StoreWrite s \<notin> set ?tr)"
      by simp
    ultimately show ?thesis
      using run by blast
  next
    case (WriteOk k)
    let ?s = "saved_doc d k"
    let ?tr = "[StoreWrite ?s, Emit ''log'' ?s, Respond 201 (CreatedBody k True)]"
    have run: "post_api_logs now outcome payload coll = Inr (?tr, coll @ [?s])"
      using True d WriteOk by (simp add: post_write_ok)
    have "ev = ''log'' \<and> (\<exists>j<i. ?tr ! j = StoreWrite s) \<and> s \<in> set (coll @ [?s]) \<and>
        outcome = WriteOk (doc_id s)"
      if "i < length ?tr \<and> ?tr ! i = Emit ev s" for i ev s
    proof -
      from that have "i = 1 \<and> ev = ''log'' \<and> s = ?s"
        using emit_position by blast
      then show ?thesis
        using WriteOk by (simp add: saved_doc_sel)
    qed
    then have "\<forall>i ev s. i < length ?tr \<and> ?tr ! i = Emit ev s \<longrightarrow>
        ev = ''log'' \<and> (\<exists>j<i. ?tr ! j = StoreWrite s) \<and> s \<in> set (coll @ [?s]) \<and>
        outcome = WriteOk (doc_id s)"
      by blast
    moreover have "\<forall>m. \<not> (has_log payload \<and> outcome = WriteFails m)"
      using WriteOk by simp
    ultimately show ?thesis
      using run by blast
  qed
qed

theorem broadcast_only_after_write_witness:
  "has_log (JObj [(''log'', JObj [(''msg'', JStr ''slow query'')])]) \<and>
   (\<exists>tr coll'. post_api_logs 7 (WriteFails ''down'') (JObj [(''log'', JObj [(''msg'', JStr ''slow query'')])]) [] = Inr (tr, coll') \<and>
      last tr = Respond 500 (ErrorBody ''Failed to save log'') \<and>
      (\<forall>ev s. Emit ev s \<notin> set tr) \<and> coll' = []) \<and>
   (\<exists>tr coll' s. post_api_logs 7 (WriteOk 3) (JObj [(''log'', JObj [(''msg'', JStr ''slow query'')])]) [] = Inr (tr, coll') \<and>
      tr ! 1 = Emit ''log'' s \<and> tr ! 0 = StoreWrite s \<and> coll' = [s] \<and> doc_id s = 3)"
proof -
  define p where "p = JObj [(''log'', JObj [(''msg'', JStr ''slow query'')])]"
  define down where "down = WriteFails ''down''"
  define r500 where "r500 = Respond 500 (ErrorBody ''Failed to save log'')"
  define lg where "lg = ''log''"
  have h: "has_log p"
    by (simp add: has_log_def p_def)
  obtain tr coll' where eq: "post_api_logs 7 down p [] = Inr (tr, coll')"
    and f: "\<forall>m. has_log p \<and> down = WriteFails m \<longrightarrow>
        last tr = r500 \<and> (\<forall>ev s. Emit ev s \<notin> set tr) \<and> (\<forall>s. StoreWrite s \<notin> set tr) \<and> coll' = []"
    using broadcast_only_after_write [of 7 down p "[]"] unfolding r500_def by blast
  have "has_log p \<and> down = WriteFails ''down''"
    using h by (simp add: down_def)
  with f have "last tr = r500 \<and> (\<forall>ev s. Emit ev s \<notin> set tr) \<and> coll' = []"
    by blast
  with eq have fails: "\<exists>tr coll'. post_api_logs 7 down p [] = Inr (tr, coll') \<and>
      last tr = r500 \<and> (\<forall>ev s. Emit ev s \<notin> set tr) \<and> coll' = []"
    by blast
  obtain d where d: "build_doc 7 p = Inr d"
    using build_doc_total [OF h] by blast
  define s0 where "s0 = saved_doc d 3"
  have run: "post_api_logs 7 (WriteOk 3) p [] =
          Inr ([StoreWrite s0, Emit lg s0, Respond 201 (CreatedBody 3 True)], [s0])"
    using post_write_ok [OF h d, of 3 "[]"] by (simp add: s0_def lg_def)
  obtain tr2 coll2 where ok: "post_api_logs 7 (WriteOk 3) p [] = Inr (tr2, coll2)"
    and ord: "\<forall>i ev s. i < length tr2 \<and> tr2 ! i = Emit ev s \<longrightarrow>
        ev = lg \<and> (\<exists>j<i. tr2 ! j = StoreWrite s) \<and> s \<in> set coll2 \<and>
        WriteOk 3 = WriteOk (doc_id s)"
    using broadcast_only_after_write [of 7 "WriteOk 3" p "[]"] unfolding lg_def by blast
  from ok run have tr: "tr2 = [StoreWrite s0, Emit lg s0, Respond 201 (CreatedBody 3 True)]"
    and c: "coll2 = [s0]"
    by simp_all
  have "1 < length tr2 \<and> tr2 ! 1 = Emit lg s0"
    using tr by simp
  with ord have "(\<exists>j<1. tr2 ! j = StoreWrite s0) \<and> WriteOk 3 = WriteOk (doc_id s0)"
    by blast
  then have "tr2 ! 0 = StoreWrite s0 \<and> doc_id s0 = 3"
    by simp
  with ok tr c have "\<exists>tr coll' s. post_api_logs 7 (WriteOk 3) p [] = Inr (tr, coll') \<and>
      tr ! 1 = Emit lg s \<and> tr ! 0 = StoreWrite s \<and> coll' = [s] \<and> doc_id s = 3"
    by (intro exI [of _ tr2] exI [of _ coll2] exI [of _ s0]) simp
  with h fails show ?thesis
    unfolding p_def down_def r500_def lg_def by blast
qed

text \<open>
  C2. A body without the \<^verbatim>\<open>log\<close> key, or no body at all, is answered with status 400
  and an error descriptor; that response is the only effect (no write, no event) and
  the collection is the one before the request.
\<close>

theorem post_missing_log_rejected:
  assumes "\<not> has_log payload"
  shows "post_api_logs now outcome payload coll =
           Inr ([Respond 400 (ErrorBody ''Invalid payload: log required'')], coll)"
proof -
  have "invalid_payload payload = Inr True"
    using assms by (simp add: invalid_payload_eq)
  then show ?thesis
    by (simp add: post_api_logs_def bind_res_simps)
qed

theorem post_missing_log_rejected_witness:
  "\<not> has_log (JObj [(''reason'', JStr ''x'')]) \<and> \<not> has_log JUndefined \<and>
   post_api_logs 5 (WriteOk 1) (JObj [(''reason'', JStr ''x'')]) [] =
     Inr ([Respond 400 (ErrorBody ''Invalid payload: log required'')], []) \<and>
   post_api_logs 5 (WriteOk 1) JUndefined [] =
     Inr ([Respond 400 (ErrorBody ''Invalid payload: log required'')], [])"
proof -
  have a: "\<not> has_log (JObj [(''reason'', JStr ''x'')])" by (simp add: has_log_def)
  have b: "\<not> has_log JUndefined" by (simp add: has_log_def)
  show ?thesis
    using a b post_missing_log_rejected [OF a, of 5 "WriteOk 1" "[]"]
      post_missing_log_rejected [OF b, of 5 "WriteOk 1" "[]"]
    by simp
qed

text \<open>
  C7, as stated, fails on the entities: for a payload without \<^verbatim>\<open>entities\<close> the handler
  writes \<^verbatim>\<open>{}\<close> into the document, and the record stored, emitted and answered for has
  no \<^verbatim>\<open>entities\<close> field, which is not an empty structure.
\<close>

theorem stored_entities_absent:
  "post_api_logs 42 (WriteOk 0) (JObj [(''log'', JObj [(''msg'', JStr ''auth failed'')])]) [] =
     Inr ([StoreWrite \<lparr> timestamp = 42, meta_source = ''ai_engine'', meta_severity = JStr ''I'',
                        log = JObj [(''msg'', JStr ''auth failed'')], is_anomaly = False,
                        anomaly_score = JNum (Finite 0), reason = JStr [], entities = JUndefined,
                        model_used = False, doc_id = 0 \<rparr>,
           Emit ''log'' \<lparr> timestamp = 42, meta_source = ''ai_engine'', meta_severity = JStr ''I'',
                        log = JObj [(''msg'', JStr ''auth failed'')], is_anomaly = False,
                        anomaly_score = JNum (Finite 0), reason = JStr [], entities = JUndefined,
                        model_used = False, doc_id = 0 \<rparr>,
           Respond 201 (CreatedBody 0 True)],
          [\<lparr> timestamp = 42, meta_source = ''ai_engine'', meta_severity = JStr ''I'',
             log = JObj [(''msg'', JStr ''auth failed'')], is_anomaly = False,
             anomaly_score = JNum (Finite 0), reason = JStr [], entities = JUndefined,
             model_used = False, doc_id = 0 \<rparr>]) \<and>
   build_doc 42 (JObj [(''log'', JObj [(''msg'', JStr ''auth failed'')])]) =
     Inr \<lparr> timestamp = 42, meta_source = ''ai_engine'', meta_severity = JStr ''I'',
           log = JObj [(''msg'', JStr ''auth failed'')], is_anomaly = False,
           anomaly_score = JNum (Finite 0), reason = JStr [], entities = JObj [],
           model_used = False \<rparr> \<and>
   entities \<lparr> timestamp = 42, meta_source = ''ai_engine'', meta_severity = JStr ''I'',
              log = JObj [(''msg'', JStr ''auth failed'')], is_anomaly = False,
              anomaly_score = JNum (Finite 0), reason = JStr [], entities = JUndefined,
              model_used = False, doc_id = 0 \<rparr> \<noteq> JObj []"
  by code_simp

text \<open>
  C7, amended. For a valid payload the document handed to the store has: the server's
  clock reading as timestamp, whatever the caller sent; as severity the first truthy of
  \<^verbatim>\<open>log.severity\<close> and \<^verbatim>\<open>log.s\<close>, else \<^verbatim>\<open>'I'\<close>; the two flags as the booleans their values
  coerce to; the score, \<open>0\<close> when absent or null; the reason, else the empty string; the
  entities, else the empty object. When the write succeeds, the record stored, emitted
  and answered for has that timestamp and those booleans (\<^verbatim>\<open>is_anomaly: "true"\<close> is stored
  as \<^verbatim>\<open>true\<close>); the severity and the reason as the schema casts them to a string and the
  score as it casts it to a number, so a string severity is kept, the severity is \<^verbatim>\<open>'I'\<close>
  when neither key is truthy, the score is \<open>0\<close> when absent or null and the reason is
  the empty string when absent.
\<close>

theorem stored_record_fields:
  assumes "has_log payload"
  shows "\<exists>d. build_doc now payload = Inr d \<and>
           timestamp d = now \<and>
           meta_severity d =
             (if truthy (field (field payload ''log'') ''severity'')
              then field (field payload ''log'') ''severity''
              else if truthy (field (field payload ''log'') ''s'')
              then field (field payload ''log'') ''s''
              else JStr ''I'') \<and>
           is_anomaly d = truthy (field payload ''is_anomaly'') \<and>
           model_used d = truthy (field payload ''model_used'') \<and>
           anomaly_score d =
             (if field payload ''anomaly_score'' = JUndefined \<or> field payload ''anomaly_score'' = JNull
              then JNum (Finite 0) else field payload ''anomaly_score'') \<and>
           reason d =
             (if truthy (field payload ''reason'') then field payload ''reason'' else JStr []) \<and>
           entities d =
             (if truthy (field payload ''entities'') then field payload ''entities'' else JObj []) \<and>
           (\<forall>i coll. \<exists>s.
              post_api_logs now (WriteOk i) payload coll =
                Inr ([StoreWrite s, Emit ''log'' s, Respond 201 (CreatedBody i True)], coll @ [s]) \<and>
              doc_id s = i \<and>
              timestamp s = now \<and>
              is_anomaly s = truthy (field payload ''is_anomaly'') \<and>
              model_used s = truthy (field payload ''model_used'') \<and>
              (field payload ''is_anomaly'' = JStr ''true'' \<longrightarrow> is_anomaly s = True) \<and>
              (\<forall>w. castString (meta_severity d) = Some w \<longrightarrow> meta_severity s = w) \<and>
              (\<forall>x. meta_severity d = JStr x \<longrightarrow> meta_severity s = JStr x) \<and>
              (\<not> truthy (field (field payload ''log'') ''severity'') \<and>
               \<not> truthy (field (field payload ''log'') ''s'') \<longrightarrow> meta_severity s = JStr ''I'') \<and>
              (\<forall>w. castNumber (anomaly_score d) = Some w \<longrightarrow> anomaly_score s = w) \<and>
              (field payload ''anomaly_score'' = JUndefined \<or> field payload ''anomaly_score'' = JNull \<longrightarrow>
                 anomaly_score s = JNum (Finite 0)) \<and>
              (\<forall>w. castString (reason d) = Some w \<longrightarrow> reason s = w) \<and>
              (\<not> truthy (field payload ''reason'') \<longrightarrow> reason s = JStr []))"
proof -
  from assms obtain kvs where p: "payload = JObj kvs"
    by (rule has_log_obj)
  define sev where "sev = field (field payload ''log'') ''severity''"
  define sv where "sv = field (field payload ''log'') ''s''"
  define ia where "ia = field payload ''is_anomaly''"
  define mu where "mu = field payload ''model_used''"
  define sc where "sc = field payload ''anomaly_score''"
  define rs where "rs = field payload ''reason''"
  define en where "en = field payload ''entities''"
  define sI where "sI = JStr ''I''"
  define d where "d = \<lparr> timestamp = now,
           meta_source = ''ai_engine'',
           meta_severity = js_or sev (js_or sv sI),
           log = field payload ''log'',
           is_anomaly = truthy ia,
           anomaly_score = js_nullish sc (JNum (Finite 0)),
           reason = js_or rs (JStr []),
           entities = js_or en (JObj []),
           model_used = truthy mu \<rparr>"
  have bd: "build_doc now payload = Inr d"
    unfolding d_def sev_def sv_def ia_def mu_def sc_def rs_def en_def sI_def p by (rule build_doc_obj)
  have d_ts: "timestamp d = now" and d_ia: "is_anomaly d = truthy ia" and d_mu: "model_used d = truthy mu"
    by (simp_all add: d_def)
  have d_sev: "meta_severity d = (if truthy sev then sev else if truthy sv then sv else sI)"
    by (simp add: d_def js_or_def)
  have d_sc: "anomaly_score d = (if sc = JUndefined \<or> sc = JNull then JNum (Finite 0) else sc)"
    by (simp add: d_def js_nullish_def)
  have d_rs: "reason d = (if truthy rs then rs else JStr [])"
    by (simp add: d_def js_or_def)
  have d_en: "entities d = (if truthy en then en else JObj [])"
    by (simp add: d_def js_or_def)
  have stored: "\<exists>s. post_api_logs now (WriteOk i) payload coll =
                Inr ([StoreWrite s, Emit ''log'' s, Respond 201 (CreatedBody i True)], coll @ [s]) \<and>
              doc_id s = i \<and>
              timestamp s = now \<and>
              is_anomaly s = truthy ia \<and>
              model_used s = truthy mu \<and>
              (ia = JStr ''true'' \<longrightarrow> is_anomaly s = True) \<and>
              (\<forall>w. castString (meta_severity d) = Some w \<longrightarrow> meta_severity s = w) \<and>
              (\<forall>x. meta_severity d = JStr x \<longrightarrow> meta_severity s = JStr x) \<and>
              (\<not> truthy sev \<and> \<not> truthy sv \<longrightarrow> meta_severity s = sI) \<and>
              (\<forall>w. castNumber (anomaly_score d) = Some w \<longrightarrow> anomaly_score s = w) \<and>
              (sc = JUndefined \<or> sc = JNull \<longrightarrow> anomaly_score s = JNum (Finite 0)) \<and>
              (\<forall>w. castString (reason d) = Some w \<longrightarrow> reason s = w) \<and>
              (\<not> truthy rs \<longrightarrow> reason s = JStr [])" for i coll
  proof (intro exI [of _ "saved_doc d i"] conjI)
    show "post_api_logs now (WriteOk i) payload coll =
            Inr ([StoreWrite (saved_doc d i), Emit ''log'' (saved_doc d i),
                  Respond 201 (CreatedBody i True)], coll @ [saved_doc d i])"
      using assms bd by (rule post_write_ok)
    show "doc_id (saved_doc d i) = i"
      by (simp add: saved_doc_sel)
    show "timestamp (saved_doc d i) = now"
      by (simp add: saved_doc_sel d_ts)
    show "is_anomaly (saved_doc d i) = truthy ia"
      by (simp add: saved_doc_sel d_ia)
    show "model_used (saved_doc d i) = truthy mu"
      by (simp add: saved_doc_sel d_mu)
    show "ia = JStr ''true'' \<longrightarrow> is_anomaly (saved_doc d i) = True"
      by (simp add: saved_doc_sel d_ia)
    show "\<forall>w. castString (meta_severity d) = Some w \<longrightarrow> meta_severity (saved_doc d i) = w"
      by (simp add: saved_doc_cast cast_or_keep_Some)
    show "\<forall>x. meta_severity d = JStr x \<longrightarrow> meta_severity (saved_doc d i) = JStr x"
      by (simp add: saved_doc_cast cast_or_keep_Some castString_string)
    show "\<not> truthy sev \<and> \<not> truthy sv \<longrightarrow> meta_severity (saved_doc d i) = sI"
      by (simp add: saved_doc_cast d_sev sI_def cast_or_keep_Some castString_string)
    show "\<forall>w. castNumber (anomaly_score d) = Some w \<longrightarrow> anomaly_score (saved_doc d i) = w"
      by (simp add: saved_doc_cast cast_or_keep_Some)
    show "sc = JUndefined \<or> sc = JNull \<longrightarrow> anomaly_score (saved_doc d i) = JNum (Finite 0)"
      by (simp add: saved_doc_cast d_sc cast_or_keep_Some castNumber_number)
    show "\<forall>w. castString (reason d) = Some w \<longrightarrow> reason (saved_doc d i) = w"
      by (simp add: saved_doc_cast cast_or_keep_Some)
    show "\<not> truthy rs \<longrightarrow> reason (saved_doc d i) = JStr []"
      by (simp add: saved_doc_cast d_rs cast_or_keep_Some castString_string)
  qed
  show ?thesis
    unfolding sev_def [symmetric] sv_def [symmetric] ia_def [symmetric] mu_def [symmetric]
      sc_def [symmetric] rs_def [symmetric] en_def [symmetric] sI_def [symmetric]
  proof (intro exI [of _ d] conjI allI)
    show "build_doc now payload = Inr d" by (rule bd)
    show "timestamp d = now" by (rule d_ts)
    show "meta_severity d = (if truthy sev then sev else if truthy sv then sv else sI)" by (rule d_sev)
    show "is_anomaly d = truthy ia" by (rule d_ia)
    show "model_used d = truthy mu" by (rule d_mu)
    show "anomaly_score d = (if sc = JUndefined \<or> sc = JNull then JNum (Finite 0) else sc)" by (rule d_sc)
    show "reason d = (if truthy rs then rs else JStr [])" by (rule d_rs)
    show "entities d = (if truthy en then en else JObj [])" by (rule d_en)
    show "\<exists>s. post_api_logs now (WriteOk i) payload coll =
                Inr ([StoreWrite s, Emit ''log'' s, Respond 201 (CreatedBody i True)], coll @ [s]) \<and>
              doc_id s = i \<and>
              timestamp s = now \<and>
              is_anomaly s = truthy ia \<and>
              model_used s = truthy mu \<and>
              (ia = JStr ''true'' \<longrightarrow> is_anomaly s = True) \<and>
              (\<forall>w. castString (meta_severity d) = Some w \<longrightarrow> meta_severity s = w) \<and>
              (\<forall>x. meta_severity d = JStr x \<longrightarrow> meta_severity s = JStr x) \<and>
              (\<not> truthy sev \<and> \<not> truthy sv \<longrightarrow> meta_severity s = sI) \<and>
              (\<forall>w. castNumber (anomaly_score d) = Some w \<longrightarrow> anomaly_score s = w) \<and>
              (sc = JUndefined \<or> sc = JNull \<longrightarrow> anomaly_score s = JNum (Finite 0)) \<and>
              (\<forall>w. castString (reason d) = Some w \<longrightarrow> reason s = w) \<and>
              (\<not> truthy rs \<longrightarrow> reason s = JStr [])" for i coll
      by (rule stored)
  qed
qed

theorem stored_record_fields_witness:
  "has_log (JObj [(''log'', JObj [(''msg'', JStr ''auth failed''), (''s'', JStr ''W'')]),
                  (''is_anomaly'', JStr ''true''),
                  (''anomaly_score'', JStr ''0.5''),
                  (''timestamp'', JNum (Finite 1))]) \<and>
   (\<exists>s. post_api_logs 42 (WriteOk 0)
               (JObj [(''log'', JObj [(''msg'', JStr ''auth failed''), (''s'', JStr ''W'')]),
                      (''is_anomaly'', JStr ''true''),
                      (''anomaly_score'', JStr ''0.5''),
                      (''timestamp'', JNum (Finite 1))]) [] =
          Inr ([StoreWrite s, Emit ''log'' s, Respond 201 (CreatedBody 0 True)], [s]) \<and>
        timestamp s = 42 \<and>
        is_anomaly s = True \<and>
        model_used s = False \<and>
        meta_severity s = JStr ''W'' \<and>
        anomaly_score s = JNum (Finite (1 / 2)) \<and>
        reason s = JStr [])"
proof -
  define p where "p = JObj [(''log'', JObj [(''msg'', JStr ''auth failed''), (''s'', JStr ''W'')]),
                  (''is_anomaly'', JStr ''true''),
                  (''anomaly_score'', JStr ''0.5''),
                  (''timestamp'', JNum (Finite 1))]"
  have h: "has_log p"
    by (simp add: has_log_def p_def)
  have f: "field (field p ''log'') ''severity'' = JUndefined"
    "field (field p ''log'') ''s'' = JStr ''W''"
    "field p ''is_anomaly'' = JStr ''true''"
    "field p ''model_used'' = JUndefined"
    "field p ''anomaly_score'' = JStr ''0.5''"
    "field p ''reason'' = JUndefined"
    by (simp_all add: field_def p_def)
  obtain d where all: "build_doc 42 p = Inr d \<and>
           timestamp d = 42 \<and>
           meta_severity d =
             (if truthy (field (field p ''log'') ''severity'')
              then field (field p ''log'') ''severity''
              else if truthy (field (field p ''log'') ''s'')
              then field (field p ''log'') ''s''
              else JStr ''I'') \<and>
           is_anomaly d = truthy (field p ''is_anomaly'') \<and>
           model_used d = truthy (field p ''model_used'') \<and>
           anomaly_score d =
             (if field p ''anomaly_score'' = JUndefined \<or> field p ''anomaly_score'' = JNull
              then JNum (Finite 0) else field p ''anomaly_score'') \<and>
           reason d =
             (if truthy (field p ''reason'') then field p ''reason'' else JStr []) \<and>
           entities d =
             (if truthy (field p ''entities'') then field p ''entities'' else JObj []) \<and>
           (\<forall>i coll. \<exists>s.
              post_api_logs 42 (WriteOk i) p coll =
                Inr ([StoreWrite s, Emit ''log'' s, Respond 201 (CreatedBody i True)], coll @ [s]) \<and>
              doc_id s = i \<and>
              timestamp s = 42 \<and>
              is_anomaly s = truthy (field p ''is_anomaly'') \<and>
              model_used s = truthy (field p ''model_used'') \<and>
              (field p ''is_anomaly'' = JStr ''true'' \<longrightarrow> is_anomaly s = True) \<and>
              (\<forall>w. castString (meta_severity d) = Some w \<longrightarrow> meta_severity s = w) \<and>
              (\<forall>x. meta_severity d = JStr x \<longrightarrow> meta_severity s = JStr x) \<and>
              (\<not> truthy (field (field p ''log'') ''severity'') \<and>
               \<not> truthy (field (field p ''log'') ''s'') \<longrightarrow> meta_severity s = JStr ''I'') \<and>
              (\<forall>w. castNumber (anomaly_score d) = Some w \<longrightarrow> anomaly_score s = w) \<and>
              (field p ''anomaly_score'' = JUndefined \<or> field p ''anomaly_score'' = JNull \<longrightarrow>
                 anomaly_score s = JNum (Finite 0)) \<and>
              (\<forall>w. castString (reason d) = Some w \<longrightarrow> reason s = w) \<and>
              (\<not> truthy (field p ''reason'') \<longrightarrow> reason s = JStr []))"
    using stored_record_fields [OF h, of 42] by (rule exE)
  have sev: "meta_severity d =
             (if truthy (field (field p ''log'') ''severity'')
              then field (field p ''log'') ''severity''
              else if truthy (field (field p ''log'') ''s'')
              then field (field p ''log'') ''s''
              else JStr ''I'')"
    using all by (elim conjE)
  have sc: "anomaly_score d =
             (if field p ''anomaly_score'' = JUndefined \<or> field p ''anomaly_score'' = JNull
              then JNum (Finite 0) else field p ''anomaly_score'')"
    using all by (elim conjE)
  have st: "\<forall>i coll. \<exists>s.
              post_api_logs 42 (WriteOk i) p coll =
                Inr ([StoreWrite s, Emit ''log'' s, Respond 201 (CreatedBody i True)], coll @ [s]) \<and>
              doc_id s = i \<and>
              timestamp s = 42 \<and>
              is_anomaly s = truthy (field p ''is_anomaly'') \<and>
              model_used s = truthy (field p ''model_used'') \<and>
              (field p ''is_anomaly'' = JStr ''true'' \<longrightarrow> is_anomaly s = True) \<and>
              (\<forall>w. castString (meta_severity d) = Some w \<longrightarrow> meta_severity s = w) \<and>
              (\<forall>x. meta_severity d = JStr x \<longrightarrow> meta_severity s = JStr x) \<and>
              (\<not> truthy (field (field p ''log'') ''severity'') \<and>
               \<not> truthy (field (field p ''log'') ''s'') \<longrightarrow> meta_severity s = JStr ''I'') \<and>
              (\<forall>w. castNumber (anomaly_score d) = Some w \<longrightarrow> anomaly_score s = w) \<and>
              (field p ''anomaly_score'' = JUndefined \<or> field p ''anomaly_score'' = JNull \<longrightarrow>
                 anomaly_score s = JNum (Finite 0)) \<and>
              (\<forall>w. castString (reason d) = Some w \<longrightarrow> reason s = w) \<and>
              (\<not> truthy (field p ''reason'') \<longrightarrow> reason s = JStr [])"
    using all by (elim conjE)
  have dsev: "meta_severity d = JStr ''W''"
    unfolding sev f by simp
  have dsc: "castNumber (anomaly_score d) = Some (JNum (Finite (1 / 2)))"
    unfolding sc f by (simp add: castNumber_half)
  obtain s where sall: "post_api_logs 42 (WriteOk 0) p [] =
                Inr ([StoreWrite s, Emit ''log'' s, Respond 201 (CreatedBody 0 True)], [] @ [s]) \<and>
              doc_id s = 0 \<and>
              timestamp s = 42 \<and>
              is_anomaly s = truthy (field p ''is_anomaly'') \<and>
              model_used s = truthy (field p ''model_used'') \<and>
              (field p ''is_anomaly'' = JStr ''true'' \<longrightarrow> is_anomaly s = True) \<and>
              (\<forall>w. castString (meta_severity d) = Some w \<longrightarrow> meta_severity s = w) \<and>
              (\<forall>x. meta_severity d = JStr x \<longrightarrow> meta_severity s = JStr x) \<and>
              (\<not> truthy (field (field p ''log'') ''severity'') \<and>
               \<not> truthy (field (field p ''log'') ''s'') \<longrightarrow> meta_severity s = JStr ''I'') \<and>
              (\<forall>w. castNumber (anomaly_score d) = Some w \<longrightarrow> anomaly_score s = w) \<and>
              (field p ''anomaly_score'' = JUndefined \<or> field p ''anomaly_score'' = JNull \<longrightarrow>
                 anomaly_score s = JNum (Finite 0)) \<and>
              (\<forall>w. castString (reason d) = Some w \<longrightarrow> reason s = w) \<and>
              (\<not> truthy (field p ''reason'') \<longrightarrow> reason s = JStr [])"
    using st [THEN spec, THEN spec, of 0 "[]"] by (rule exE)
  have run: "post_api_logs 42 (WriteOk 0) p [] =
                Inr ([StoreWrite s, Emit ''log'' s, Respond 201 (CreatedBody 0 True)], [] @ [s])"
    using sall by (elim conjE)
  have ts: "timestamp s = 42"
    using sall by (elim conjE)
  have ia: "field p ''is_anomaly'' = JStr ''true'' \<longrightarrow> is_anomaly s = True"
    using sall by (elim conjE)
  have mu: "model_used s = truthy (field p ''model_used'')"
    using sall by (elim conjE)
  have ms: "\<forall>x. meta_severity d = JStr x \<longrightarrow> meta_severity s = JStr x"
    using sall by (elim conjE)
  have an: "\<forall>w. castNumber (anomaly_score d) = Some w \<longrightarrow> anomaly_score s = w"
    using sall by (elim conjE)
  have rs: "\<not> truthy (field p ''reason'') \<longrightarrow> reason s = JStr []"
    using sall by (elim conjE)
  have "post_api_logs 42 (WriteOk 0) p [] =
          Inr ([StoreWrite s, Emit ''log'' s, Respond 201 (CreatedBody 0 True)], [s])"
    using run by simp
  moreover have "is_anomaly s = True"
    using ia f by simp
  moreover have "model_used s = False"
    using mu f by simp
  moreover have "meta_severity s = JStr ''W''"
    using ms dsev by simp
  moreover have "anomaly_score s = JNum (Finite (1 / 2))"
    using an dsc by simp
  moreover have "reason s = JStr []"
    using rs f by simp
  ultimately have "\<exists>s. post_api_logs 42 (WriteOk 0) p [] =
          Inr ([StoreWrite s, Emit ''log'' s, Respond 201 (CreatedBody 0 True)], [s]) \<and>
        timestamp s = 42 \<and>
        is_anomaly s = True \<and>
        model_used s = False \<and>
        meta_severity s = JStr ''W'' \<and>
        anomaly_score s = JNum (Finite (1 / 2)) \<and>
        reason s = JStr []"
    using ts by (intro exI [of _ s] conjI)
  with h show ?thesis
    unfolding p_def by (rule conjI)
qed

text \<open>
  C10. For a payload the guard accepts, the handler throws nothing, whatever the store
  does; and when the \<^verbatim>\<open>log\<close> value is no object (null, a boolean, a number, a string,
  an array), the optional reads of \<^verbatim>\<open>severity\<close> and \<^verbatim>\<open>s\<close> give \<^verbatim>\<open>undefined\<close> and the
  severity of the document, and of the record stored from it, is \<^verbatim>\<open>'I'\<close>.
\<close>

theorem severity_derivation_total:
  assumes "has_log payload"
  shows "(\<forall>outcome coll. \<exists>tr coll'. post_api_logs now outcome payload coll = Inr (tr, coll')) \<and>
         (\<exists>d. build_doc now payload = Inr d \<and>
              (\<forall>i coll. \<exists>tr. post_api_logs now (WriteOk i) payload coll =
                                 Inr (tr, coll @ [saved_doc d i])) \<and>
              ((\<forall>kvs. field payload ''log'' \<noteq> JObj kvs) \<longrightarrow>
                 opt_get (field payload ''log'') ''severity'' = Inr JUndefined \<and>
                 opt_get (field payload ''log'') ''s'' = Inr JUndefined \<and>
                 meta_severity d = JStr ''I'' \<and>
                 (\<forall>i. meta_severity (saved_doc d i) = JStr ''I'')))"
proof -
  from assms obtain kvs where p: "payload = JObj kvs"
    by (rule has_log_obj)
  obtain d where d: "build_doc now payload = Inr d"
    using build_doc_total [OF assms] by blast
  have sev: "meta_severity d = js_or (field (field payload ''log'') ''severity'')
                                 (js_or (field (field payload ''log'') ''s'') (JStr ''I''))"
    using d unfolding p build_doc_obj by auto
  have total: "\<exists>tr coll'. post_api_logs now outcome payload coll = Inr (tr, coll')" for outcome coll
  proof (cases outcome)
    case (WriteFails m)
    then show ?thesis using assms by (simp add: post_write_fails)
  next
    case (WriteOk i)
    then show ?thesis using assms d by (simp add: post_write_ok)
  qed
  have run: "\<exists>tr. post_api_logs now (WriteOk i) payload coll = Inr (tr, coll @ [saved_doc d i])" for i coll
    using post_write_ok [OF assms d] by blast
  have scalar: "opt_get (field payload ''log'') ''severity'' = Inr JUndefined \<and>
                 opt_get (field payload ''log'') ''s'' = Inr JUndefined \<and>
                 meta_severity d = JStr ''I'' \<and>
                 (\<forall>i. meta_severity (saved_doc d i) = JStr ''I'')"
    if "\<forall>kvs. field payload ''log'' \<noteq> JObj kvs"
  proof -
    have "field (field payload ''log'') ''severity'' = JUndefined"
      and "field (field payload ''log'') ''s'' = JUndefined"
      using that by (simp_all add: field_non_object)
    then show ?thesis
      by (simp add: opt_get_field sev js_or_def saved_doc_cast cast_or_keep_Some castString_string)
  qed
  show ?thesis
    using total d run scalar by (intro conjI allI exI [of _ d] impI) simp_all
qed

theorem severity_derivation_total_witness:
  "has_log (JObj [(''log'', JNull)]) \<and>
   (\<exists>tr coll'. post_api_logs 3 (WriteOk 8) (JObj [(''log'', JNull)]) [] = Inr (tr, coll')) \<and>
   (\<exists>d. build_doc 3 (JObj [(''log'', JNull)]) = Inr d \<and> meta_severity d = JStr ''I'') \<and>
   has_log (JObj [(''log'', JNum (Finite 0))]) \<and>
   (\<exists>d. build_doc 3 (JObj [(''log'', JNum (Finite 0))]) = Inr d \<and> meta_severity d = JStr ''I'')"
proof -
  define p where "p = JObj [(''log'', JNull)]"
  define q where "q = JObj [(''log'', JNum (Finite 0))]"
  define lg where "lg = ''log''"
  define sI where "sI = JStr ''I''"
  have hp: "has_log p" and hq: "has_log q"
    by (simp_all add: has_log_def p_def q_def)
  have np: "\<forall>kvs. field p lg \<noteq> JObj kvs" and nq: "\<forall>kvs. field q lg \<noteq> JObj kvs"
    by (simp_all add: field_def p_def q_def lg_def)
  have a: "(\<forall>outcome coll. \<exists>tr coll'. post_api_logs 3 outcome p coll = Inr (tr, coll')) \<and>
         (\<exists>d. build_doc 3 p = Inr d \<and>
              (\<forall>i coll. \<exists>tr. post_api_logs 3 (WriteOk i) p coll =
                                 Inr (tr, coll @ [saved_doc d i])) \<and>
              ((\<forall>kvs. field p lg \<noteq> JObj kvs) \<longrightarrow>
                 opt_get (field p lg) ''severity'' = Inr JUndefined \<and>
                 opt_get (field p lg) ''s'' = Inr JUndefined \<and>
                 meta_severity d = sI \<and>
                 (\<forall>i. meta_severity (saved_doc d i) = sI)))"
    unfolding lg_def sI_def by (rule severity_derivation_total [OF hp])
  have b: "(\<forall>outcome coll. \<exists>tr coll'. post_api_logs 3 outcome q coll = Inr (tr, coll')) \<and>
         (\<exists>d. build_doc 3 q = Inr d \<and>
              (\<forall>i coll. \<exists>tr. post_api_logs 3 (WriteOk i) q coll =
                                 Inr (tr, coll @ [saved_doc d i])) \<and>
              ((\<forall>kvs. field q lg \<noteq> JObj kvs) \<longrightarrow>
                 opt_get (field q lg) ''severity'' = Inr JUndefined \<and>
                 opt_get (field q lg) ''s'' = Inr JUndefined \<and>
                 meta_severity d = sI \<and>
                 (\<forall>i. meta_severity (saved_doc d i) = sI)))"
    unfolding lg_def sI_def by (rule severity_derivation_total [OF hq])
  have "\<exists>tr coll'. post_api_logs 3 (WriteOk 8) p [] = Inr (tr, coll')"
    using a by blast
  moreover have "\<exists>d. build_doc 3 p = Inr d \<and> meta_severity d = sI"
    using a np by blast
  moreover have "\<exists>d. build_doc 3 q = Inr d \<and> meta_severity d = sI"
    using b nq by blast
  ultimately show ?thesis
    using hp hq unfolding p_def q_def sI_def by blast
qed

text \<open>
  C6, as stated, fails on the listing: the record of an accepted payload (\<^verbatim>\<open>log\<close> is
  \<^verbatim>\<open>null\<close>) is stored at time 0 and answered with 201; after fifty further records,
  stored in the following milliseconds, GET /api/logs lists those fifty and not the
  record; and right after the request, GET /api/logs?skip=1 lists nothing.
\<close>

theorem record_beyond_first_page:
  "post_api_logs 0 (WriteOk 0) (JObj [(''log'', JNull)]) [] =
     Inr ([StoreWrite \<lparr> timestamp = 0, meta_source = ''ai_engine'', meta_severity = JStr ''I'',
                        log = JNull, is_anomaly = False, anomaly_score = JNum (Finite 0),
                        reason = JStr [], entities = JUndefined, model_used = False, doc_id = 0 \<rparr>,
           Emit ''log'' \<lparr> timestamp = 0, meta_source = ''ai_engine'', meta_severity = JStr ''I'',
                        log = JNull, is_anomaly = False, anomaly_score = JNum (Finite 0),
                        reason = JStr [], entities = JUndefined, model_used = False, doc_id = 0 \<rparr>,
           Respond 201 (CreatedBody 0 True)],
          [\<lparr> timestamp = 0, meta_source = ''ai_engine'', meta_severity = JStr ''I'',
             log = JNull, is_anomaly = False, anomaly_score = JNum (Finite 0),
             reason = JStr [], entities = JUndefined, model_used = False, doc_id = 0 \<rparr>]) \<and>
   get_api_logs (Available 101) []
     (\<lparr> timestamp = 0, meta_source = ''ai_engine'', meta_severity = JStr ''I'',
        log = JNull, is_anomaly = False, anomaly_score = JNum (Finite 0),
        reason = JStr [], entities = JUndefined, model_used = False, doc_id = 0 \<rparr> # later_samples 50) =
     [Respond 200 (LogsBody (rev (later_samples 50)) 51)] \<and>
   \<lparr> timestamp = 0, meta_source = ''ai_engine'', meta_severity = JStr ''I'',
     log = JNull, is_anomaly = False, anomaly_score = JNum (Finite 0),
     reason = JStr [], entities = JUndefined, model_used = False, doc_id = 0 \<rparr>
     \<notin> set (rev (later_samples 50)) \<and>
   get_api_logs (Available 101) [(''skip'', QStr ''1'')]
     [\<lparr> timestamp = 0, meta_source = ''ai_engine'', meta_severity = JStr ''I'',
        log = JNull, is_anomaly = False, anomaly_score = JNum (Finite 0),
        reason = JStr [], entities = JUndefined, model_used = False, doc_id = 0 \<rparr>] =
     [Respond 200 (LogsBody [] 1)]"
proof -
  define s where "s = \<lparr> timestamp = 0, meta_source = ''ai_engine'', meta_severity = JStr ''I'',
     log = JNull, is_anomaly = False, anomaly_score = JNum (Finite 0),
     reason = JStr [], entities = JUndefined, model_used = False, doc_id = (0 :: nat) \<rparr>"
  have "timestamp s = 0"
    by (simp add: s_def)
  then have "get_api_logs (Available 101) [] (s # later_samples 50) =
           [Respond 200 (LogsBody (rev (later_samples 50)) 51)] \<and>
         s \<notin> set (rev (later_samples 50))"
    by (rule first_page_of_newer)
  moreover have "get_api_logs (Available 101) [(''skip'', QStr ''1'')] [s] = [Respond 200 (LogsBody [] 1)]"
    by (rule skipped_single_record)
  ultimately show ?thesis
    using post_null_log unfolding s_def by (intro conjI) (elim conjE, assumption)+
qed

text \<open>
  C6, amended. A payload with the \<^verbatim>\<open>log\<close> key and a value, \<^verbatim>\<open>null\<close> and \<open>0\<close> included,
  passes the guard; when the store acknowledges the write under identifier \<open>i\<close>, a record
  with that identifier and the time of the request is appended to the collection,
  holding the \<^verbatim>\<open>log\<close> value unchanged when it is \<^verbatim>\<open>null\<close> or a scalar, and the response is
  201 with identifier \<open>i\<close> and \<^verbatim>\<open>ok: true\<close>. A later GET /api/logs with
  skip \<open>0\<close> and a positive limit lists the record as long as the collection holds it
  and no more records than the limit, the record counted, carry a timestamp at or after
  its own; with no parameter and right after the request that is: fewer than 50 stored
  records are as new as the request.
\<close>

theorem accepted_payload_persisted:
  assumes "has_log payload"
  shows "invalid_payload payload = Inr False \<and>
     (\<forall>i coll. \<exists>s.
        post_api_logs now (WriteOk i) payload coll =
          Inr ([StoreWrite s, Emit ''log'' s, Respond 201 (CreatedBody i True)], coll @ [s]) \<and>
        doc_id s = i \<and>
        timestamp s = now \<and>
        ((\<forall>kvs. field payload ''log'' \<noteq> JObj kvs) \<and> (\<forall>xs. field payload ''log'' \<noteq> JArr xs) \<longrightarrow>
           log s = field payload ''log'') \<and>
        (\<forall>cap query coll'.
           s \<in> set coll' \<and> skip_of query = 0 \<and> 0 < limit_of query \<and>
           int (length (filter (\<lambda>r. timestamp s \<le> timestamp r) coll')) \<le> limit_of query \<longrightarrow>
           (\<exists>logs. get_api_logs (Available cap) query coll' =
                      [Respond 200 (LogsBody logs (length coll'))] \<and>
                    s \<in> set logs)) \<and>
        (\<forall>cap. int (length (filter (\<lambda>r. now \<le> timestamp r) coll)) < 50 \<longrightarrow>
           (\<exists>logs. get_api_logs (Available cap) [] (coll @ [s]) =
                      [Respond 200 (LogsBody logs (Suc (length coll)))] \<and>
                    s \<in> set logs)))"
proof -
  obtain d where d: "build_doc now payload = Inr d"
    using build_doc_total [OF assms] by blast
  have ts: "timestamp d = now" and lg: "log d = field payload ''log''"
    using build_doc_log_timestamp [OF assms d] by simp_all
  have guard: "invalid_payload payload = Inr False"
    using assms by (simp add: invalid_payload_eq)
  have listed: "\<exists>logs. get_api_logs (Available cap) query coll' =
                      [Respond 200 (LogsBody logs (length coll'))] \<and> s \<in> set logs"
    if q: "s \<in> set coll' \<and> skip_of query = 0 \<and> 0 < limit_of query \<and>
           int (length (filter (\<lambda>r. timestamp s \<le> timestamp r) coll')) \<le> limit_of query"
    for s cap query coll'
  proof -
    have "length (filter (\<lambda>r. timestamp s \<le> timestamp r) coll') \<le> nat (limit_of query)"
      using q by linarith
    with q have "s \<in> set (take (nat (limit_of query)) (sort_desc coll'))"
      by (intro newest_within_limit) simp_all
    moreover have "get_api_logs (Available cap) query coll' =
        [Respond 200 (LogsBody (take (nat (limit_of query)) (sort_desc coll')) (length coll'))]"
      using q get_api_logs_page [of query cap coll'] by simp
    ultimately show ?thesis by simp
  qed
  have default: "\<exists>logs. get_api_logs (Available cap) [] (coll @ [saved_doc d i]) =
                      [Respond 200 (LogsBody logs (Suc (length coll)))] \<and>
                    saved_doc d i \<in> set logs"
    if few: "int (length (filter (\<lambda>r. now \<le> timestamp r) coll)) < 50" for cap coll i
  proof -
    let ?s = "saved_doc d i"
    have "int (length (filter (\<lambda>r. timestamp ?s \<le> timestamp r) (coll @ [?s]))) \<le> limit_of []"
      using few by (simp add: saved_doc_sel ts limit_of_no_query)
    then have "?s \<in> set (coll @ [?s]) \<and> skip_of [] = 0 \<and> 0 < limit_of [] \<and>
           int (length (filter (\<lambda>r. timestamp ?s \<le> timestamp r) (coll @ [?s]))) \<le> limit_of []"
      by (simp add: skip_of_no_query limit_of_no_query)
    then have "\<exists>logs. get_api_logs (Available cap) [] (coll @ [?s]) =
                      [Respond 200 (LogsBody logs (length (coll @ [?s])))] \<and> ?s \<in> set logs"
      by (rule listed)
    then show ?thesis by simp
  qed
  have stored: "\<exists>s.
        post_api_logs now (WriteOk i) payload coll =
          Inr ([StoreWrite s, Emit ''log'' s, Respond 201 (CreatedBody i True)], coll @ [s]) \<and>
        doc_id s = i \<and>
        timestamp s = now \<and>
        ((\<forall>kvs. field payload ''log'' \<noteq> JObj kvs) \<and> (\<forall>xs. field payload ''log'' \<noteq> JArr xs) \<longrightarrow>
           log s = field payload ''log'') \<and>
        (\<forall>cap query coll'.
           s \<in> set coll' \<and> skip_of query = 0 \<and> 0 < limit_of query \<and>
           int (length (filter (\<lambda>r. timestamp s \<le> timestamp r) coll')) \<le> limit_of query \<longrightarrow>
           (\<exists>logs. get_api_logs (Available cap) query coll' =
                      [Respond 200 (LogsBody logs (length coll'))] \<and>
                    s \<in> set logs)) \<and>
        (\<forall>cap. int (length (filter (\<lambda>r. now \<le> timestamp r) coll)) < 50 \<longrightarrow>
           (\<exists>logs. get_api_logs (Available cap) [] (coll @ [s]) =
                      [Respond 200 (LogsBody logs (Suc (length coll)))] \<and>
                    s \<in> set logs))" for i coll
  proof (intro exI [of _ "saved_doc d i"] conjI allI impI)
    show "post_api_logs now (WriteOk i) payload coll =
            Inr ([StoreWrite (saved_doc d i), Emit ''log'' (saved_doc d i),
                  Respond 201 (CreatedBody i True)], coll @ [saved_doc d i])"
      using assms d by (rule post_write_ok)
    show "doc_id (saved_doc d i) = i"
      by (simp add: saved_doc_sel)
    show "timestamp (saved_doc d i) = now"
      by (simp add: saved_doc_sel ts)
    show "log (saved_doc d i) = field payload ''log''"
      if "(\<forall>kvs. field payload ''log'' \<noteq> JObj kvs) \<and> (\<forall>xs. field payload ''log'' \<noteq> JArr xs)"
      using that by (simp add: saved_doc_cast lg minimize_non_container)
    show "\<exists>logs. get_api_logs (Available cap) query coll' =
                      [Respond 200 (LogsBody logs (length coll'))] \<and>
                    saved_doc d i \<in> set logs"
      if "saved_doc d i \<in> set coll' \<and> skip_of query = 0 \<and> 0 < limit_of query \<and>
           int (length (filter (\<lambda>r. timestamp (saved_doc d i) \<le> timestamp r) coll')) \<le> limit_of query"
      for cap query coll'
      using that by (rule listed)
    show "\<exists>logs. get_api_logs (Available cap) [] (coll @ [saved_doc d i]) =
                      [Respond 200 (LogsBody logs (Suc (length coll)))] \<and>
                    saved_doc d i \<in> set logs"
      if "int (length (filter (\<lambda>r. now \<le> timestamp r) coll)) < 50" for cap
      using that by (rule default)
  qed
  show ?thesis
    using guard stored by (intro conjI allI)
qed

theorem accepted_payload_persisted_witness:
  "has_log (JObj [(''log'', JNum (Finite 0))]) \<and>
   invalid_payload (JObj [(''log'', JNum (Finite 0))]) = Inr False \<and>
   (\<exists>s. post_api_logs 0 (WriteOk 4) (JObj [(''log'', JNum (Finite 0))]) [] =
          Inr ([StoreWrite s, Emit ''log'' s, Respond 201 (CreatedBody 4 True)], [s]) \<and>
        doc_id s = 4 \<and>
        log s = JNum (Finite 0) \<and>
        (\<exists>logs. get_api_logs (Available 101) [] [s] = [Respond 200 (LogsBody logs 1)] \<and>
                 s \<in> set logs) \<and>
        (\<exists>logs. get_api_logs (Available 101) [(''limit'', QStr ''7'')] (s # later_samples 3) =
                   [Respond 200 (LogsBody logs 4)] \<and>
                 s \<in> set logs))"
proof -
  define p where "p = JObj [(''log'', JNum (Finite 0))]"
  define q where "q = [(''limit'', QStr ''7'')]"
  have h: "has_log p"
    by (simp add: has_log_def p_def)
  note t = accepted_payload_persisted [OF h, of 0]
  have guard: "invalid_payload p = Inr False"
    using t by (rule conjunct1)
  have "\<forall>i coll. \<exists>s.
        post_api_logs 0 (WriteOk i) p coll =
          Inr ([StoreWrite s, Emit ''log'' s, Respond 201 (CreatedBody i True)], coll @ [s]) \<and>
        doc_id s = i \<and>
        timestamp s = 0 \<and>
        ((\<forall>kvs. field p ''log'' \<noteq> JObj kvs) \<and> (\<forall>xs. field p ''log'' \<noteq> JArr xs) \<longrightarrow>
           log s = field p ''log'') \<and>
        (\<forall>cap query coll'.
           s \<in> set coll' \<and> skip_of query = 0 \<and> 0 < limit_of query \<and>
           int (length (filter (\<lambda>r. timestamp s \<le> timestamp r) coll')) \<le> limit_of query \<longrightarrow>
           (\<exists>logs. get_api_logs (Available cap) query coll' =
                      [Respond 200 (LogsBody logs (length coll'))] \<and>
                    s \<in> set logs)) \<and>
        (\<forall>cap. int (length (filter (\<lambda>r. 0 \<le> timestamp r) coll)) < 50 \<longrightarrow>
           (\<exists>logs. get_api_logs (Available cap) [] (coll @ [s]) =
                      [Respond 200 (LogsBody logs (Suc (length coll)))] \<and>
                    s \<in> set logs))"
    using t by (rule conjunct2)
  note st = this
  obtain s where sall: "post_api_logs 0 (WriteOk 4) p [] =
          Inr ([StoreWrite s, Emit ''log'' s, Respond 201 (CreatedBody 4 True)], [] @ [s]) \<and>
        doc_id s = 4 \<and>
        timestamp s = 0 \<and>
        ((\<forall>kvs. field p ''log'' \<noteq> JObj kvs) \<and> (\<forall>xs. field p ''log'' \<noteq> JArr xs) \<longrightarrow>
           log s = field p ''log'') \<and>
        (\<forall>cap query coll'.
           s \<in> set coll' \<and> skip_of query = 0 \<and> 0 < limit_of query \<and>
           int (length (filter (\<lambda>r. timestamp s \<le> timestamp r) coll')) \<le> limit_of query \<longrightarrow>
           (\<exists>logs. get_api_logs (Available cap) query coll' =
                      [Respond 200 (LogsBody logs (length coll'))] \<and>
                    s \<in> set logs)) \<and>
        (\<forall>cap. int (length (filter (\<lambda>r. 0 \<le> timestamp r) ([] :: stored list))) < 50 \<longrightarrow>
           (\<exists>logs. get_api_logs (Available cap) [] ([] @ [s]) =
                      [Respond 200 (LogsBody logs (Suc (length ([] :: stored list))))] \<and>
                    s \<in> set logs))"
    using st [THEN spec, THEN spec, of 4 "[]"] by (rule exE)
  have run: "post_api_logs 0 (WriteOk 4) p [] =
          Inr ([StoreWrite s, Emit ''log'' s, Respond 201 (CreatedBody 4 True)], [s])"
    using sall by simp
  have id: "doc_id s = 4"
    using sall by (elim conjE)
  have "(\<forall>kvs. field p ''log'' \<noteq> JObj kvs) \<and> (\<forall>xs. field p ''log'' \<noteq> JArr xs) \<longrightarrow>
           log s = field p ''log''"
    using sall by (elim conjE)
  moreover have "field p ''log'' = JNum (Finite 0)"
    by (simp add: field_def p_def)
  ultimately have lg: "log s = JNum (Finite 0)"
    by simp
  have gen: "\<forall>cap query coll'.
           s \<in> set coll' \<and> skip_of query = 0 \<and> 0 < limit_of query \<and>
           int (length (filter (\<lambda>r. timestamp s \<le> timestamp r) coll')) \<le> limit_of query \<longrightarrow>
           (\<exists>logs. get_api_logs (Available cap) query coll' =
                      [Respond 200 (LogsBody logs (length coll'))] \<and>
                    s \<in> set logs)"
    using sall by (elim conjE)
  have dflt: "\<forall>cap. int (length (filter (\<lambda>r. 0 \<le> timestamp r) ([] :: stored list))) < 50 \<longrightarrow>
           (\<exists>logs. get_api_logs (Available cap) [] ([] @ [s]) =
                      [Respond 200 (LogsBody logs (Suc (length ([] :: stored list))))] \<and>
                    s \<in> set logs)"
    using sall by (elim conjE)
  have "int (length (filter (\<lambda>r. 0 \<le> timestamp r) ([] :: stored list))) < 50"
    by simp
  with dflt have "\<exists>logs. get_api_logs (Available 101) [] ([] @ [s]) =
                      [Respond 200 (LogsBody logs (Suc (length ([] :: stored list))))] \<and>
                    s \<in> set logs"
    by blast
  then have first: "\<exists>logs. get_api_logs (Available 101) [] [s] = [Respond 200 (LogsBody logs 1)] \<and>
                 s \<in> set logs"
    by simp
  have "length (filter (\<lambda>r. timestamp s \<le> timestamp r) (s # later_samples 3)) \<le>
          length (s # later_samples 3)"
    by (rule length_filter_le)
  then have "int (length (filter (\<lambda>r. timestamp s \<le> timestamp r) (s # later_samples 3))) \<le> limit_of q"
    by (simp add: q_def limit_7 later_samples_sel)
  then have "s \<in> set (s # later_samples 3) \<and> skip_of q = 0 \<and> 0 < limit_of q \<and>
           int (length (filter (\<lambda>r. timestamp s \<le> timestamp r) (s # later_samples 3))) \<le> limit_of q"
    by (simp add: q_def limit_7)
  with gen have "\<exists>logs. get_api_logs (Available 101) q (s # later_samples 3) =
                      [Respond 200 (LogsBody logs (length (s # later_samples 3)))] \<and>
                    s \<in> set logs"
    by blast
  then have second: "\<exists>logs. get_api_logs (Available 101) q (s # later_samples 3) =
                   [Respond 200 (LogsBody logs 4)] \<and> s \<in> set logs"
    by (simp add: later_samples_sel)
  have "\<exists>s. post_api_logs 0 (WriteOk 4) p [] =
          Inr ([StoreWrite s, Emit ''log'' s, Respond 201 (CreatedBody 4 True)], [s]) \<and>
        doc_id s = 4 \<and>
        log s = JNum (Finite 0) \<and>
        (\<exists>logs. get_api_logs (Available 101) [] [s] = [Respond 200 (LogsBody logs 1)] \<and>
                 s \<in> set logs) \<and>
        (\<exists>logs. get_api_logs (Available 101) q (s # later_samples 3) =
                   [Respond 200 (LogsBody logs 4)] \<and>
                 s \<in> set logs)"
    using run id lg first second by (intro exI [of _ s] conjI)
  with h guard show ?thesis
    unfolding p_def q_def by (intro conjI)
qed

section \<open>The statistics, step by step\<close>

text \<open>
  The rounding \<open>fl\<close> does what its description says: \<open>ilog2\<close> is the binary exponent,
  the result is within half a unit in the last place of the argument, and a multiple
  of that unit is returned unchanged.
\<close>

lemma pow2_pos: "0 < pow2 e"
  by (simp add: pow2_def)

lemma pow2_powi: "pow2 e = 2 powi e"
  by (simp add: pow2_def power_int_def inverse_eq_divide power_one_over)

lemma pow2_add: "pow2 (a + b) = pow2 a * pow2 b"
  by (simp add: pow2_powi power_int_add)

lemma pow2_nat: "0 \<le> e \<Longrightarrow> pow2 e = 2 ^ nat e"
  by (simp add: pow2_def)

lemma bitlen_bounds_rat:
  assumes "0 < p"
  shows "pow2 (bitlen p - 1) \<le> of_int p" and "of_int p < pow2 (bitlen p)"
proof -
  have b: "1 \<le> bitlen p"
    using assms by (simp add: bitlen_alt_def)
  have lo: "2 ^ nat (bitlen p - 1) \<le> p" and hi: "p < 2 ^ nat (bitlen p)"
    using bitlen_bounds [OF assms] by simp_all
  have "(of_int (2 ^ nat (bitlen p - 1)) :: rat) \<le> of_int p"
    using lo by (simp only: of_int_le_iff)
  then show "pow2 (bitlen p - 1) \<le> of_int p"
    using b by (simp add: pow2_nat)
  have "(of_int p :: rat) < of_int (2 ^ nat (bitlen p))"
    using hi by (simp only: of_int_less_iff)
  then show "of_int p < pow2 (bitlen p)"
    using b by (simp add: pow2_nat)
qed

lemma ilog2_bounds:
  assumes "0 < x"
  shows "pow2 (ilog2 x) \<le> x \<and> x < pow2 (ilog2 x + 1)"
proof -
  obtain p q where pq: "quotient_of x = (p, q)"
    by (cases "quotient_of x")
  then have q: "0 < q" and x: "x = of_int p / of_int q"
    by (simp_all add: quotient_of_denom_pos quotient_of_div)
  from assms x q have p: "0 < p"
    by (simp add: zero_less_divide_iff)
  define bp where "bp = bitlen p"
  define bq where "bq = bitlen q"
  note plo = bitlen_bounds_rat(1) [OF p, folded bp_def]
  note phi = bitlen_bounds_rat(2) [OF p, folded bp_def]
  note qlo = bitlen_bounds_rat(1) [OF q, folded bq_def]
  note qhi = bitlen_bounds_rat(2) [OF q, folded bq_def]
  have qpos: "(0 :: rat) < of_int q"
    using q by simp
  have xq: "x * of_int q = of_int p"
    using x qpos by simp
  have upper: "x < pow2 (bp - bq + 1)"
  proof -
    have "x * pow2 (bq - 1) \<le> x * of_int q"
      using qlo assms by (intro mult_left_mono) simp_all
    also have "\<dots> < pow2 bp"
      unfolding xq by (rule phi)
    also have "\<dots> = pow2 ((bp - bq + 1) + (bq - 1))"
      by simp
    also have "\<dots> = pow2 (bp - bq + 1) * pow2 (bq - 1)"
      by (rule pow2_add)
    finally have "x * pow2 (bq - 1) < pow2 (bp - bq + 1) * pow2 (bq - 1)" .
    then show ?thesis
      using pow2_pos [of "bq - 1"] by (simp only: mult_less_cancel_right_pos)
  qed
  have lower: "pow2 (bp - bq - 1) < x"
  proof -
    have "pow2 (bp - bq - 1) * of_int q < pow2 (bp - bq - 1) * pow2 bq"
      using qhi pow2_pos [of "bp - bq - 1"] by (intro mult_strict_left_mono)
    also have "\<dots> = pow2 ((bp - bq - 1) + bq)"
      by (rule pow2_add [symmetric])
    also have "\<dots> = pow2 (bp - 1)"
      by simp
    also have "\<dots> \<le> x * of_int q"
      unfolding xq by (rule plo)
    finally have "pow2 (bp - bq - 1) * of_int q < x * of_int q" .
    then show ?thesis
      using qpos by (simp only: mult_less_cancel_right_pos)
  qed
  have il: "ilog2 x = (if pow2 (bp - bq) \<le> x then bp - bq else bp - bq - 1)"
    by (simp add: ilog2_def pq bp_def bq_def Let_def)
  show ?thesis
  proof (cases "pow2 (bp - bq) \<le> x")
    case True
    then show ?thesis using upper by (simp add: il)
  next
    case False
    then show ?thesis using lower by (simp add: il)
  qed
qed

lemma round_half_even_error: "\<bar>of_int (round_half_even x) - x\<bar> \<le> 1 / 2"
proof -
  define d where "d = x - of_int \<lfloor>x\<rfloor>"
  have d: "0 \<le> d" "d < 1"
    unfolding d_def by linarith+
  have x: "x = of_int \<lfloor>x\<rfloor> + d"
    by (simp add: d_def)
  consider "d < 1 / 2" | "1 / 2 < d" | "d = 1 / 2" by linarith
  then show ?thesis
  proof cases
    case 1
    then have "round_half_even x = \<lfloor>x\<rfloor>"
      by (simp add: round_half_even_def d_def Let_def)
    then show ?thesis using 1 d by (simp add: d_def)
  next
    case 2
    then have "round_half_even x = \<lfloor>x\<rfloor> + 1"
      by (simp add: round_half_even_def d_def Let_def)
    then show ?thesis using 2 d by (simp add: d_def)
  next
    case 3
    then have "round_half_even x = \<lfloor>x\<rfloor> \<or> round_half_even x = \<lfloor>x\<rfloor> + 1"
      by (simp add: round_half_even_def d_def Let_def)
    then show ?thesis using 3 by (auto simp: d_def)
  qed
qed

lemma round_half_even_int: "round_half_even (of_int n) = n"
  by (simp add: round_half_even_def)

lemma fl_error:
  assumes "0 < x"
  shows "\<bar>fl x - x\<bar> \<le> pow2 (max (ilog2 x - 52) (- 1074)) / 2"
proof -
  define u where "u = pow2 (max (ilog2 x - 52) (- 1074))"
  have u: "0 < u" by (simp add: u_def pow2_def)
  have "fl x = of_int (round_half_even (x / u)) * u"
    using assms by (simp add: fl_def fl_pos_def u_def [symmetric] Let_def)
  then have "fl x - x = (of_int (round_half_even (x / u)) - x / u) * u"
    using u by (simp add: algebra_simps)
  then have "\<bar>fl x - x\<bar> = \<bar>of_int (round_half_even (x / u)) - x / u\<bar> * u"
    using u by (simp add: abs_mult)
  also have "\<dots> \<le> 1 / 2 * u"
    using round_half_even_error [of "x / u"] u by (intro mult_right_mono) simp_all
  finally show ?thesis
    by (simp add: u_def)
qed

lemma fl_representable:
  assumes "0 < x" and "x = of_int n * pow2 (max (ilog2 x - 52) (- 1074))"
  shows "fl x = x"
proof -
  define u where "u = pow2 (max (ilog2 x - 52) (- 1074))"
  have u: "0 < u" by (simp add: u_def pow2_def)
  have q: "x / u = of_int n"
    using assms(2) u unfolding u_def [symmetric] by simp
  have "fl x = of_int (round_half_even (x / u)) * u"
    using assms(1) by (simp add: fl_def fl_pos_def u_def [symmetric] Let_def)
  also have "\<dots> = of_int n * u"
    unfolding q round_half_even_int ..
  also have "\<dots> = x"
    using assms(2) unfolding u_def [symmetric] by simp
  finally show ?thesis .
qed

text \<open>Two doubles known from the literature: the nearest to one tenth, and to one third.\<close>

lemma fl_one_tenth: "fl (1 / 10) = 3602879701896397 / 2 ^ 55"
  by code_simp

lemma fl_one_third: "fl (1 / 3) = 6004799503160661 / 2 ^ 54"
  by code_simp

lemma round_half_even_nonneg: "0 \<le> x \<Longrightarrow> 0 \<le> round_half_even x"
  by (simp add: round_half_even_def Let_def)

lemma fl_nonneg:
  assumes "0 \<le> x"
  shows "0 \<le> fl x"
proof (cases "x = 0")
  case True
  then show ?thesis by (simp add: fl_def)
next
  case False
  let ?u = "pow2 (max (ilog2 x - 52) (- 1074))"
  have "0 \<le> x / ?u"
    using assms pow2_pos [of "max (ilog2 x - 52) (- 1074)"] by simp
  then have "0 \<le> round_half_even (x / ?u)"
    by (rule round_half_even_nonneg)
  then have "0 \<le> of_int (round_half_even (x / ?u)) * ?u"
    using pow2_pos [of "max (ilog2 x - 52) (- 1074)"] by simp
  then show ?thesis
    using assms False by (simp add: fl_def fl_pos_def Let_def)
qed

lemma anomaly_rate_nonneg: "0 \<le> anomaly_rate tot anoms"
  by (simp add: anomaly_rate_def js_mul_def js_div_def fl_nonneg)

lemma get_api_stats_available:
  "get_api_stats now (Available cap) coll =
     [Respond 200 (StatsBody
        \<lparr> st_total = length (filter (in_window now) coll),
          st_anomalies = length (filter (anomaly_in_window now) coll),
          anomalyRate = round2 (anomaly_rate (length (filter (in_window now) coll))
                                  (length (filter (anomaly_in_window now) coll))),
          threatLevel = threat_level (anomaly_rate (length (filter (in_window now) coll))
                                        (length (filter (anomaly_in_window now) coll))),
          recentAnomalies = map project (take 100 (sort_desc (filter (anomaly_in_window now) coll))) \<rparr>)]"
  by (simp add: get_api_stats_def countDocuments_def find_sorted_def db_skip_def db_limit_def Let_def)

lemma get_api_stats_unavailable: "get_api_stats now (Unavailable m) coll = stats_failed m"
  by (simp add: get_api_stats_def countDocuments_def)

lemma stats_response:
  assumes "Respond 200 (StatsBody st) \<in> set (get_api_stats now status coll)"
  shows "st = \<lparr> st_total = length (filter (in_window now) coll),
          st_anomalies = length (filter (anomaly_in_window now) coll),
          anomalyRate = round2 (anomaly_rate (length (filter (in_window now) coll))
                                  (length (filter (anomaly_in_window now) coll))),
          threatLevel = threat_level (anomaly_rate (length (filter (in_window now) coll))
                                        (length (filter (anomaly_in_window now) coll))),
          recentAnomalies = map project (take 100 (sort_desc (filter (anomaly_in_window now) coll))) \<rparr>"
proof (cases status)
  case (Unavailable m)
  then show ?thesis
    using assms by (simp add: get_api_stats_unavailable stats_failed_def)
next
  case (Available cap)
  then show ?thesis
    using assms by (simp add: get_api_stats_available)
qed

lemma threat_level_cases:
  assumes "0 \<le> r"
  shows "(10 < r \<longrightarrow> threat_level r = ''high'') \<and>
         (3 < r \<and> r \<le> 10 \<longrightarrow> threat_level r = ''medium'') \<and>
         (0 < r \<and> r \<le> 3 \<longrightarrow> threat_level r = ''low'') \<and>
         (r = 0 \<longrightarrow> threat_level r = ''none'')"
  by (simp add: threat_level_def)

lemma count_samples:
  "length (filter (in_window 0) (replicate m (sample 0 True) @ replicate n (sample 0 False))) = m + n"
  "length (filter (anomaly_in_window 0) (replicate m (sample 0 True) @ replicate n (sample 0 False))) = m"
  by (simp_all add: in_window_def anomaly_in_window_def oneDayAgo_def sample_def)

lemma rate_10_1: "anomaly_rate 10 1 = 10" by code_simp
lemma rate_10_2: "anomaly_rate 10 2 = 20" by code_simp
lemma round2_20: "round2 20 = 20" by code_simp
lemma round2_10: "round2 10 = 10" by code_simp
lemma rate_160_23: "anomaly_rate 160 23 = 8092405580431359 / 562949953421312" by code_simp
lemma round2_rate_160_23: "round2 (8092405580431359 / 562949953421312) = fl (1437 / 100)" by code_simp
lemma fl_1437: "fl (1437 / 100) = 8089590830664253 / 562949953421312" by code_simp
lemma fl_1438: "fl (1438 / 100) = 8095220330198467 / 562949953421312" by code_simp
lemma spec_160_23: "spec_anomalyRate 160 23 = 1438 / 100" by (simp add: spec_anomalyRate_def)

lemma sample_sel:
  "timestamp (sample t a) = t"
  "is_anomaly (sample t a) = a"
  "log (sample t a) = JObj [(''msg'', JStr ''connection accepted'')]"
  by (simp_all add: sample_def)

lemma fl_tenth_times_100: "fl (fl (1 / 10) * 100) = 10" by code_simp
lemma fl_3_percent_times_100: "fl (fl (3 / 100) * 100) = 3" by code_simp

lemma rate_exactly_10:
  assumes "0 < tot" and "10 * anoms = tot"
  shows "anomaly_rate tot anoms = 10"
proof -
  have "0 < anoms" using assms by simp
  then have q: "(of_nat anoms :: rat) / of_nat tot = 1 / 10"
    using assms(2) [symmetric] by simp
  have "anomaly_rate tot anoms = fl (fl (of_nat anoms / of_nat tot) * 100)"
    using assms(1) by (simp add: anomaly_rate_def js_mul_def js_div_def)
  also have "\<dots> = fl (fl (1 / 10) * 100)"
    by (simp only: q)
  also have "\<dots> = 10"
    by (rule fl_tenth_times_100)
  finally show ?thesis .
qed

lemma rate_exactly_3:
  assumes "0 < tot" and "100 * anoms = 3 * tot"
  shows "anomaly_rate tot anoms = 3"
proof -
  have "(of_nat (100 * anoms) :: rat) = of_nat (3 * tot)"
    using assms(2) by simp
  then have "100 * (of_nat anoms :: rat) = 3 * of_nat tot"
    by simp
  then have q: "(of_nat anoms :: rat) / of_nat tot = 3 / 100"
    using assms(1) by (simp add: field_simps)
  have "anomaly_rate tot anoms = fl (fl (of_nat anoms / of_nat tot) * 100)"
    using assms(1) by (simp add: anomaly_rate_def js_mul_def js_div_def)
  also have "\<dots> = fl (fl (3 / 100) * 100)"
    by (simp only: q)
  also have "\<dots> = 3"
    by (rule fl_3_percent_times_100)
  finally show ?thesis .
qed

lemma threat_level_10: "threat_level 10 = ''medium''"
  by (simp add: threat_level_def)

lemma threat_level_3: "threat_level 3 = ''low''"
  by (simp add: threat_level_def)

lemma fl_small: "fl (fl (1 / 30000) * 100) = 7686143364045647 / 2305843009213693952"
  by code_simp

lemma rate_30000_1: "anomaly_rate 30000 1 = 7686143364045647 / 2305843009213693952"
  by (simp add: anomaly_rate_def js_mul_def js_div_def fl_small)

lemma round2_small: "round2 (7686143364045647 / 2305843009213693952) = 0"
  by code_simp

lemma threat_level_from_unrounded_rate:
  "round2 (anomaly_rate 30000 1) = 0 \<and> threat_level (anomaly_rate 30000 1) = ''low'' \<and>
   threat_level (round2 (anomaly_rate 30000 1)) = ''none''"
  unfolding rate_30000_1 round2_small by (simp add: threat_level_def)

lemma stats_scenario_2_of_10:
  "\<exists>st. get_api_stats 0 (Available 0) (replicate 2 (sample 0 True) @ replicate 8 (sample 0 False)) =
          [Respond 200 (StatsBody st)] \<and>
        st_total st = 10 \<and> st_anomalies st = 2 \<and> anomalyRate st = 20 \<and> threatLevel st = ''high''"
proof -
  define coll where "coll = replicate 2 (sample 0 True) @ replicate 8 (sample 0 False)"
  have c: "length (filter (in_window 0) coll) = 10" "length (filter (anomaly_in_window 0) coll) = 2"
    unfolding coll_def count_samples by simp_all
  show ?thesis
    unfolding coll_def [symmetric] get_api_stats_available c rate_10_2 round2_20
    by (simp add: threat_level_def)
qed

lemma stats_empty_window:
  assumes "\<forall>r\<in>set coll. timestamp r < oneDayAgo now"
  shows "\<exists>st. get_api_stats now (Available cap) coll = [Respond 200 (StatsBody st)] \<and>
              st_total st = 0 \<and> st_anomalies st = 0 \<and> anomalyRate st = 0 \<and>
              threatLevel st = ''none'' \<and> recentAnomalies st = []"
proof -
  have "filter (in_window now) coll = []" and "filter (anomaly_in_window now) coll = []"
    using assms by (auto simp: filter_empty_conv in_window_def anomaly_in_window_def)
  moreover have "round2 0 = 0"
    by code_simp
  ultimately show ?thesis
    unfolding get_api_stats_available
    by (simp add: anomaly_rate_def threat_level_def sort_desc_def)
qed

lemma project_fields:
  "project a = \<lparr> ra_timestamp = timestamp a, ra_msg = field (log a) ''msg'',
                   ra_reason = reason a, ra_score = anomaly_score a \<rparr>"
  by (simp add: project_def opt_get_field)

lemma beyond_take_not_newer:
  assumes "sorted_wrt (\<lambda>a b. timestamp b \<le> timestamp a) ys"
    and "a \<in> set ys" and "a \<notin> set (take n ys)" and "b \<in> set (take n ys)"
  shows "timestamp a \<le> timestamp b"
proof -
  have "sorted_wrt (\<lambda>a b. timestamp b \<le> timestamp a) (take n ys @ drop n ys)"
    using assms(1) by simp
  then have "\<forall>x\<in>set (take n ys). \<forall>y\<in>set (drop n ys). timestamp y \<le> timestamp x"
    unfolding sorted_wrt_append by blast
  moreover have "a \<in> set (drop n ys)"
    using assms(2,3) by (metis Un_iff append_take_drop_id set_append)
  ultimately show ?thesis
    using assms(4) by blast
qed

section \<open>Claims about GET /api/stats\<close>

text \<open>
  C3. In every statistics response the two counts are those of the stored records of
  the last 24 hours, and of the anomalous ones among them, and the threat level is read
  off the unrounded rate \<open>r\<close> of these counts (the double \<^verbatim>\<open>(anomalies / total) * 100\<close>,
  while the reported rate is \<open>round2 r\<close>), with strict comparisons: \<open>high\<close> above 10,
  \<open>medium\<close> above 3 up to 10, \<open>low\<close> above 0 up to 3, \<open>none\<close> at 0, and \<open>r\<close> is never
  negative. An empty window gives the rate 0 and \<open>none\<close>. When the anomalies are exactly a
  tenth of the total the double is exactly 10 and the level is \<open>medium\<close>; when they are
  exactly three hundredths it is exactly 3 and the level is \<open>low\<close>. Whenever the store
  answers, so does the handler.
\<close>

theorem threat_level_breakpoints:
  assumes "Respond 200 (StatsBody st) \<in> set (get_api_stats now status coll)"
  shows "\<exists>r. st_total st = length (filter (in_window now) coll) \<and>
           st_anomalies st = length (filter (anomaly_in_window now) coll) \<and>
           r = anomaly_rate (length (filter (in_window now) coll))
                 (length (filter (anomaly_in_window now) coll)) \<and>
           anomalyRate st = round2 r \<and> 0 \<le> r \<and>
           (10 < r \<longrightarrow> threatLevel st = ''high'') \<and>
           (3 < r \<and> r \<le> 10 \<longrightarrow> threatLevel st = ''medium'') \<and>
           (0 < r \<and> r \<le> 3 \<longrightarrow> threatLevel st = ''low'') \<and>
           (r = 0 \<longrightarrow> threatLevel st = ''none'') \<and>
           (filter (in_window now) coll = [] \<longrightarrow> r = 0 \<and> threatLevel st = ''none'') \<and>
           (0 < st_total st \<and> 10 * st_anomalies st = st_total st \<longrightarrow>
              r = 10 \<and> threatLevel st = ''medium'') \<and>
           (0 < st_total st \<and> 100 * st_anomalies st = 3 * st_total st \<longrightarrow>
              r = 3 \<and> threatLevel st = ''low'') \<and>
           (\<forall>cap. get_api_stats now (Available cap) coll = [Respond 200 (StatsBody st)])"
proof -
  define tot where "tot = length (filter (in_window now) coll)"
  define anoms where "anoms = length (filter (anomaly_in_window now) coll)"
  define r where "r = anomaly_rate tot anoms"
  note st = stats_response [OF assms]
  have t: "st_total st = tot"
    unfolding tot_def by (subst st) simp
  have a: "st_anomalies st = anoms"
    unfolding anoms_def by (subst st) simp
  have lvl: "threatLevel st = threat_level r"
    unfolding r_def tot_def anoms_def by (subst st) simp
  have rnd: "anomalyRate st = round2 r"
    unfolding r_def tot_def anoms_def by (subst st) simp
  have nonneg: "0 \<le> r"
    unfolding r_def by (rule anomaly_rate_nonneg)
  have empty: "r = 0 \<and> threatLevel st = ''none''" if "filter (in_window now) coll = []"
    using that by (simp add: lvl r_def tot_def anomaly_rate_def threat_level_def)
  have ten: "r = 10 \<and> threatLevel st = ''medium''"
    if "0 < st_total st \<and> 10 * st_anomalies st = st_total st"
    using that rate_exactly_10 [of tot anoms]
    by (simp add: lvl r_def t a threat_level_10)
  have three: "r = 3 \<and> threatLevel st = ''low''"
    if "0 < st_total st \<and> 100 * st_anomalies st = 3 * st_total st"
    using that rate_exactly_3 [of tot anoms]
    by (simp add: lvl r_def t a threat_level_3)
  have run: "get_api_stats now (Available cap) coll = [Respond 200 (StatsBody st)]" for cap
    unfolding get_api_stats_available by (subst st) simp
  have cases: "(10 < r \<longrightarrow> threatLevel st = ''high'') \<and>
         (3 < r \<and> r \<le> 10 \<longrightarrow> threatLevel st = ''medium'') \<and>
         (0 < r \<and> r \<le> 3 \<longrightarrow> threatLevel st = ''low'') \<and>
         (r = 0 \<longrightarrow> threatLevel st = ''none'')"
    unfolding lvl using nonneg by (rule threat_level_cases)
  show ?thesis
  proof (intro exI [of _ r] conjI)
    show "st_total st = length (filter (in_window now) coll)"
      using t by (simp add: tot_def)
    show "st_anomalies st = length (filter (anomaly_in_window now) coll)"
      using a by (simp add: anoms_def)
    show "r = anomaly_rate (length (filter (in_window now) coll))
                 (length (filter (anomaly_in_window now) coll))"
      by (simp add: r_def tot_def anoms_def)
    show "anomalyRate st = round2 r" by (rule rnd)
    show "0 \<le> r" by (rule nonneg)
    show "10 < r \<longrightarrow> threatLevel st = ''high''"
      using cases by (elim conjE)
    show "3 < r \<and> r \<le> 10 \<longrightarrow> threatLevel st = ''medium''"
      using cases by (elim conjE)
    show "0 < r \<and> r \<le> 3 \<longrightarrow> threatLevel st = ''low''"
      using cases by (elim conjE)
    show "r = 0 \<longrightarrow> threatLevel st = ''none''"
      using cases by (elim conjE)
    show "filter (in_window now) coll = [] \<longrightarrow> r = 0 \<and> threatLevel st = ''none''"
      using empty by (rule impI)
    show "0 < st_total st \<and> 10 * st_anomalies st = st_total st \<longrightarrow>
              r = 10 \<and> threatLevel st = ''medium''"
      using ten by (rule impI)
    show "0 < st_total st \<and> 100 * st_anomalies st = 3 * st_total st \<longrightarrow>
              r = 3 \<and> threatLevel st = ''low''"
      using three by (rule impI)
    show "\<forall>cap. get_api_stats now (Available cap) coll = [Respond 200 (StatsBody st)]"
      using run by (rule allI)
  qed
qed

theorem threat_level_breakpoints_witness:
  "\<exists>st. Respond 200 (StatsBody st) \<in>
           set (get_api_stats 0 (Available 0) (replicate 1 (sample 0 True) @ replicate 9 (sample 0 False))) \<and>
        st_total st = 10 \<and> st_anomalies st = 1 \<and> anomalyRate st = 10 \<and>
        threatLevel st = ''medium''"
proof -
  define coll where "coll = replicate 1 (sample 0 True) @ replicate 9 (sample 0 False)"
  obtain st where st: "get_api_stats 0 (Available 0) coll = [Respond 200 (StatsBody st)]"
    by (simp add: get_api_stats_available)
  have r: "Respond 200 (StatsBody st) \<in> set (get_api_stats 0 (Available 0) coll)"
    by (simp add: st)
  have c: "length (filter (in_window 0) coll) = 10" "length (filter (anomaly_in_window 0) coll) = 1"
    unfolding coll_def count_samples by simp_all
  obtain r where t10: "st_total st = 10" and a1: "st_anomalies st = 1"
    and rnd: "anomalyRate st = round2 r"
    and ten: "0 < st_total st \<and> 10 * st_anomalies st = st_total st \<longrightarrow>
              r = 10 \<and> threatLevel st = ''medium''"
    using threat_level_breakpoints [OF r] unfolding c by (elim exE conjE) (rule that)
  have "0 < st_total st \<and> 10 * st_anomalies st = st_total st"
    using t10 a1 by simp
  with ten have m: "r = 10 \<and> threatLevel st = ''medium''" ..
  have "anomalyRate st = 10"
    using rnd m by (simp add: round2_10)
  with r t10 a1 m show ?thesis
    unfolding coll_def by (intro exI [of _ st] conjI) simp_all
qed

text \<open>
  C4. With 160 records in the window, 23 of them anomalous, the exact rate is 14.375
  and rounds to 14.38; the handler's doubles give \<^verbatim>\<open>(23 / 160) * 100 = 14.374999999999998\<close>,
  so \<^verbatim>\<open>Math.round\<close> sees 1437.4999999999998 and the response carries 14.37.
\<close>

theorem anomaly_rate_tie_rounds_down:
  "\<exists>st. get_api_stats 0 (Available 0) (replicate 23 (sample 0 True) @ replicate 137 (sample 0 False)) =
          [Respond 200 (StatsBody st)] \<and>
        st_total st = 160 \<and> st_anomalies st = 23 \<and>
        anomalyRate st = fl (1437 / 100) \<and>
        spec_anomalyRate 160 23 = 1438 / 100 \<and>
        anomalyRate st \<noteq> fl (1438 / 100)"
proof -
  define coll where "coll = replicate 23 (sample 0 True) @ replicate 137 (sample 0 False)"
  obtain st where st: "get_api_stats 0 (Available 0) coll = [Respond 200 (StatsBody st)]"
    and tot: "st_total st = length (filter (in_window 0) coll)"
    and an: "st_anomalies st = length (filter (anomaly_in_window 0) coll)"
    and rt: "anomalyRate st = round2 (anomaly_rate (length (filter (in_window 0) coll))
                                  (length (filter (anomaly_in_window 0) coll)))"
    by (simp add: get_api_stats_available)
  have c: "length (filter (in_window 0) coll) = 160" "length (filter (anomaly_in_window 0) coll) = 23"
    unfolding coll_def count_samples by simp_all
  have rate: "anomalyRate st = fl (1437 / 100)"
    unfolding rt c by (simp only: rate_160_23 round2_rate_160_23)
  have "fl (1437 / 100) \<noteq> fl (1438 / 100)"
    unfolding fl_1437 fl_1438 by simp
  with st tot an c rate spec_160_23 show ?thesis
    unfolding coll_def by (intro exI [of _ st]) simp
qed

text \<open>
  C9. In every statistics response \<^verbatim>\<open>recentAnomalies\<close> is the projection of the first 100
  of the anomalous records of the window, newest first: at most 100 entries, each from
  a stored record with \<^verbatim>\<open>timestamp >= now - 24h\<close> and \<^verbatim>\<open>is_anomaly\<close>, in descending
  timestamp order, no omitted matching record newer than a listed one, and each entry
  made of the record's timestamp, \<^verbatim>\<open>log.msg\<close> (\<^verbatim>\<open>undefined\<close> when absent), reason and score.
\<close>

theorem recent_anomalies_listing:
  assumes "Respond 200 (StatsBody st) \<in> set (get_api_stats now status coll)"
  shows "\<exists>found. recentAnomalies st = map project found \<and>
           found = take 100 (sort_desc (filter (anomaly_in_window now) coll)) \<and>
           length (recentAnomalies st) \<le> 100 \<and>
           (\<forall>a\<in>set found. a \<in> set coll \<and> now - 86400000 \<le> timestamp a \<and> is_anomaly a) \<and>
           sorted_wrt (\<lambda>a b. timestamp b \<le> timestamp a) found \<and>
           sorted_wrt (\<lambda>x y. ra_timestamp y \<le> ra_timestamp x) (recentAnomalies st) \<and>
           (\<forall>a\<in>set coll. now - 86400000 \<le> timestamp a \<and> is_anomaly a \<and> a \<notin> set found \<longrightarrow>
              (\<forall>b\<in>set found. timestamp a \<le> timestamp b)) \<and>
           (\<forall>a. project a = \<lparr> ra_timestamp = timestamp a, ra_msg = field (log a) ''msg'',
                                ra_reason = reason a, ra_score = anomaly_score a \<rparr>)"
proof -
  define matching where "matching = filter (anomaly_in_window now) coll"
  define found where "found = take 100 (sort_desc matching)"
  have rec: "recentAnomalies st = map project found"
    unfolding found_def matching_def by (subst stats_response [OF assms]) simp
  have len: "length (recentAnomalies st) \<le> 100"
    by (simp add: rec found_def)
  have srt: "sorted_wrt (\<lambda>a b. timestamp b \<le> timestamp a) found"
    unfolding found_def using sorted_sort_desc by (rule sorted_wrt_take)
  then have srt': "sorted_wrt (\<lambda>x y. ra_timestamp y \<le> ra_timestamp x) (recentAnomalies st)"
    by (simp add: rec sorted_wrt_map project_fields)
  have "set found \<subseteq> set matching"
    unfolding found_def using set_take_subset [of 100 "sort_desc matching"]
    by (simp add: set_sort_desc)
  then have from_window: "\<forall>a\<in>set found. a \<in> set coll \<and> now - 86400000 \<le> timestamp a \<and> is_anomaly a"
    by (auto simp: matching_def anomaly_in_window_def oneDayAgo_def)
  have newest: "\<forall>a\<in>set coll. now - 86400000 \<le> timestamp a \<and> is_anomaly a \<and> a \<notin> set found \<longrightarrow>
              (\<forall>b\<in>set found. timestamp a \<le> timestamp b)"
  proof (intro ballI impI)
    fix a b
    assume a: "a \<in> set coll" and w: "now - 86400000 \<le> timestamp a \<and> is_anomaly a \<and> a \<notin> set found"
      and b: "b \<in> set found"
    have "a \<in> set (sort_desc matching)"
      using a w by (simp add: set_sort_desc matching_def anomaly_in_window_def oneDayAgo_def)
    then show "timestamp a \<le> timestamp b"
      using w b sorted_sort_desc [of matching] unfolding found_def
      by (intro beyond_take_not_newer [of "sort_desc matching" a 100 b]) simp_all
  qed
  show ?thesis
  proof (intro exI [of _ found] conjI)
    show "recentAnomalies st = map project found"
      by (rule rec)
    show "found = take 100 (sort_desc (filter (anomaly_in_window now) coll))"
      by (simp add: found_def matching_def)
    show "length (recentAnomalies st) \<le> 100"
      by (rule len)
    show "\<forall>a\<in>set found. a \<in> set coll \<and> now - 86400000 \<le> timestamp a \<and> is_anomaly a"
      by (rule from_window)
    show "sorted_wrt (\<lambda>a b. timestamp b \<le> timestamp a) found"
      by (rule srt)
    show "sorted_wrt (\<lambda>x y. ra_timestamp y \<le> ra_timestamp x) (recentAnomalies st)"
      by (rule srt')
    show "\<forall>a\<in>set coll. now - 86400000 \<le> timestamp a \<and> is_anomaly a \<and> a \<notin> set found \<longrightarrow>
              (\<forall>b\<in>set found. timestamp a \<le> timestamp b)"
      by (rule newest)
    show "\<forall>a. project a = \<lparr> ra_timestamp = timestamp a, ra_msg = field (log a) ''msg'',
                                ra_reason = reason a, ra_score = anomaly_score a \<rparr>"
      by (simp add: project_fields)
  qed
qed

theorem recent_anomalies_listing_witness:
  "\<exists>st. Respond 200 (StatsBody st) \<in>
           set (get_api_stats 10 (Available 0) [sample 5 True, sample 7 True, sample 6 False]) \<and>
        map ra_timestamp (recentAnomalies st) = [7, 5] \<and>
        map ra_msg (recentAnomalies st) = [JStr ''connection accepted'', JStr ''connection accepted'']"
proof -
  define coll where "coll = [sample 5 True, sample 7 True, sample 6 False]"
  obtain st where st: "get_api_stats 10 (Available 0) coll = [Respond 200 (StatsBody st)]"
    by (simp add: get_api_stats_available)
  have r: "Respond 200 (StatsBody st) \<in> set (get_api_stats 10 (Available 0) coll)"
    by (simp add: st)
  have m: "filter (anomaly_in_window 10) coll = [sample 5 True, sample 7 True]"
    by (simp add: coll_def anomaly_in_window_def oneDayAgo_def sample_sel)
  have s: "sort_desc [sample 5 True, sample 7 True] = [sample 7 True, sample 5 True]"
    by (simp add: sort_desc_def sample_sel)
  obtain found where a: "recentAnomalies st = map project found"
    and b: "found = take 100 (sort_desc (filter (anomaly_in_window 10) coll))"
    using recent_anomalies_listing [OF r] by (elim exE conjE) (rule that)
  have "found = [sample 7 True, sample 5 True]"
    unfolding b m s by simp
  then have c: "recentAnomalies st = [project (sample 7 True), project (sample 5 True)]"
    by (simp add: a)
  have "map ra_timestamp (recentAnomalies st) = [7, 5]"
    unfolding c by (simp add: project_fields sample_sel)
  moreover have "map ra_msg (recentAnomalies st) =
      [JStr ''connection accepted'', JStr ''connection accepted'']"
    unfolding c by (simp add: project_fields sample_sel field_def)
  ultimately show ?thesis
    using r unfolding coll_def by (intro exI [of _ st] conjI)
qed

section \<open>The query parameters\<close>

lemmas parse_defs = parse_param_def parseInt_def strip_sign_def is_ws_def is_digit_def
  digits_value_def num_or_def

lemma limit_500: "limit_of [(''limit'', QStr ''500'')] = 200"
  by code_simp

lemma limit_not_a_number: "limit_of [(''limit'', QStr ''abc'')] = 50"
  by (simp add: limit_of_def parse_defs)

lemma limit_zero: "limit_of [(''limit'', QStr ''0'')] = 50"
  by code_simp

lemma parse_absent: "map_of query k = None \<Longrightarrow> parse_param query k = None"
  by (simp add: parse_defs)

lemma limit_of_nonzero: "limit_of query \<noteq> 0"
  by (simp add: limit_of_def num_or_def min_def split: option.splits)

lemma logs_response:
  assumes "Respond 200 (LogsBody logs n) \<in> set (get_api_logs status query coll)"
  obtains cap where "status = Available cap" and "0 \<le> skip_of query"
    and "logs = db_limit cap (limit_of query) (drop (nat (skip_of query)) (sort_desc coll))"
    and "n = length coll"
proof (cases status)
  case (Unavailable m)
  then have False
    using assms by (simp add: get_api_logs_def find_sorted_def logs_failed_def)
  then show ?thesis ..
next
  case (Available cap)
  show ?thesis
  proof (cases "skip_of query < 0")
    case True
    then have False
      using assms Available
      by (simp add: get_api_logs_def find_sorted_def db_skip_def logs_failed_def)
    then show ?thesis ..
  next
    case False
    then show ?thesis
      using assms Available that [of cap]
      by (simp add: get_api_logs_def find_sorted_def db_skip_def countDocuments_def)
  qed
qed

lemma db_limit_prefix:
  assumes "n \<noteq> 0"
  shows "\<exists>k. db_limit cap n xs = take k xs \<and> k \<le> nat \<bar>n\<bar> \<and> (0 < n \<longrightarrow> k = nat n)"
proof (cases "0 < n")
  case True
  then show ?thesis
    by (intro exI [of _ "nat n"]) (simp add: db_limit_def)
next
  case False
  then have "n < 0" using assms by simp
  then show ?thesis
    by (intro exI [of _ "min (nat (- n)) cap"]) (simp add: db_limit_def)
qed

lemma sort_desc_three:
  assumes "timestamp r1 < timestamp r2" and "timestamp r2 < timestamp r3"
  shows "sort_desc [r1, r2, r3] = [r3, r2, r1]"
  using assms by (simp add: sort_desc_def)

lemma logs_three:
  assumes "timestamp r1 < timestamp r2 \<and> timestamp r2 < timestamp r3"
  shows "get_api_logs (Available cap) [] [r1, r2, r3] = [Respond 200 (LogsBody [r3, r2, r1] 3)]"
proof -
  have "get_api_logs (Available cap) [] [r1, r2, r3] =
          [Respond 200 (LogsBody (take (nat (limit_of [])) (drop (nat (skip_of [])) (sort_desc [r1, r2, r3])))
                          (length [r1, r2, r3]))]"
    by (rule get_api_logs_page) (simp_all add: skip_of_no_query limit_of_no_query)
  then show ?thesis
    using assms by (simp add: skip_of_no_query limit_of_no_query sort_desc_three)
qed

lemma limit_minus_5: "limit_of [(''limit'', QStr ''-5'')] = - 5"
  by code_simp

lemma skip_of_limit_only: "skip_of [(''limit'', QStr ''-5'')] = 0"
  by code_simp

lemma limit_2_skip_1:
  "limit_of [(''limit'', QStr ''2''), (''skip'', QStr ''1'')] = 2"
  "skip_of [(''limit'', QStr ''2''), (''skip'', QStr ''1'')] = 1"
  by code_simp+

lemma six_samples_listed:
  "get_api_logs (Available 101) [(''limit'', QStr ''-5'')]
     [sample 1 False, sample 2 False, sample 3 False, sample 4 False, sample 5 False, sample 6 False] =
   [Respond 200 (LogsBody [sample 6 False, sample 5 False, sample 4 False, sample 3 False, sample 2 False] 6)]"
proof -
  define q where "q = [(''limit'', QStr ''-5'')]"
  define coll where "coll = [sample 1 False, sample 2 False, sample 3 False, sample 4 False,
                             sample 5 False, sample 6 False]"
  have s: "sort_desc coll = rev coll"
    by (rule sort_desc_ascending) (simp add: coll_def sample_sel)
  have "get_api_logs (Available 101) q coll =
          [Respond 200 (LogsBody (db_limit 101 (- 5) (drop 0 (sort_desc coll))) (length coll))]"
    unfolding get_api_logs_def find_sorted_def
    by (simp add: q_def limit_minus_5 skip_of_limit_only db_skip_def countDocuments_def)
  then show ?thesis
    unfolding s unfolding q_def coll_def by (simp add: db_limit_def)
qed

section \<open>Claims about GET /api/logs\<close>

text \<open>
  C5, as stated, fails on negative values: \<^verbatim>\<open>limit=-5\<close> gives the limit \<open>-5\<close>, not 50, and
  \<^verbatim>\<open>skip=-3\<close> gives the skip \<open>-3\<close>, not 0.
\<close>

theorem negative_limit_passed_through:
  "limit_of [(''limit'', QStr ''-5'')] = - 5 \<and> limit_of [(''limit'', QStr ''-5'')] \<noteq> 50 \<and>
   skip_of [(''skip'', QStr ''-3'')] = - 3 \<and> skip_of [(''skip'', QStr ''-3'')] \<noteq> 0"
  by code_simp

text \<open>
  C5, amended. The limit is 50 when the parameter is absent, when \<^verbatim>\<open>parseInt\<close> gives no
  number and when it gives 0; for a positive integer it is the smaller of that integer
  and 200 (\<^verbatim>\<open>limit=500\<close> gives 200); it is never above 200. The skip is 0 when the
  parameter is absent or \<^verbatim>\<open>parseInt\<close> gives no number, and every non-negative integer is
  kept as it is.
\<close>

theorem limit_skip_parsing:
  "(map_of query ''limit'' = None \<longrightarrow> limit_of query = 50) \<and>
   (parse_param query ''limit'' = None \<longrightarrow> limit_of query = 50) \<and>
   (parse_param query ''limit'' = Some 0 \<longrightarrow> limit_of query = 50) \<and>
   (\<forall>n. parse_param query ''limit'' = Some n \<and> 0 < n \<longrightarrow>
        limit_of query = min n 200 \<and> 1 \<le> limit_of query) \<and>
   limit_of query \<le> 200 \<and>
   limit_of [(''limit'', QStr ''500'')] = 200 \<and>
   limit_of [(''limit'', QStr ''abc'')] = 50 \<and>
   limit_of [(''limit'', QStr ''0'')] = 50 \<and>
   (map_of query ''skip'' = None \<longrightarrow> skip_of query = 0) \<and>
   (parse_param query ''skip'' = None \<longrightarrow> skip_of query = 0) \<and>
   (\<forall>n. parse_param query ''skip'' = Some n \<and> 0 \<le> n \<longrightarrow> skip_of query = n)"
proof -
  have l: "limit_of query =
     (case parse_param query ''limit'' of None \<Rightarrow> 50 | Some n \<Rightarrow> if n = 0 then 50 else min n 200)"
    by (simp add: limit_of_def num_or_def split: option.splits)
  have s: "skip_of query = (case parse_param query ''skip'' of None \<Rightarrow> 0 | Some n \<Rightarrow> n)"
    by (simp add: skip_of_def num_or_def split: option.splits)
  show ?thesis
  proof (intro conjI)
    show "map_of query ''limit'' = None \<longrightarrow> limit_of query = 50"
      by (simp add: l parse_absent)
    show "parse_param query ''limit'' = None \<longrightarrow> limit_of query = 50"
      by (simp add: l)
    show "parse_param query ''limit'' = Some 0 \<longrightarrow> limit_of query = 50"
      by (simp add: l)
    show "\<forall>n. parse_param query ''limit'' = Some n \<and> 0 < n \<longrightarrow>
        limit_of query = min n 200 \<and> 1 \<le> limit_of query"
      by (simp add: l)
    show "limit_of query \<le> 200"
      by (simp add: limit_of_def)
    show "limit_of [(''limit'', QStr ''500'')] = 200"
      by (rule limit_500)
    show "limit_of [(''limit'', QStr ''abc'')] = 50"
      by (rule limit_not_a_number)
    show "limit_of [(''limit'', QStr ''0'')] = 50"
      by (rule limit_zero)
    show "map_of query ''skip'' = None \<longrightarrow> skip_of query = 0"
      by (simp add: s parse_absent)
    show "parse_param query ''skip'' = None \<longrightarrow> skip_of query = 0"
      by (simp add: s)
    show "\<forall>n. parse_param query ''skip'' = Some n \<and> 0 \<le> n \<longrightarrow> skip_of query = n"
      by (simp add: s)
  qed
qed

theorem limit_skip_parsing_witness:
  "parse_param [(''limit'', QStr ''7'')] ''limit'' = Some 7 \<and>
   limit_of [(''limit'', QStr ''7'')] = 7 \<and>
   map_of [(''limit'', QStr ''7'')] ''skip'' = None \<and>
   skip_of [(''limit'', QStr ''7'')] = 0 \<and>
   parse_param [(''skip'', QStr ''20'')] ''skip'' = Some 20 \<and>
   skip_of [(''skip'', QStr ''20'')] = 20 \<and>
   map_of [(''skip'', QStr ''20'')] ''limit'' = None \<and>
   limit_of [(''skip'', QStr ''20'')] = 50"
proof -
  define q where "q = [(''limit'', QStr ''7'')]"
  define q' where "q' = [(''skip'', QStr ''20'')]"
  define kl where "kl = ''limit''"
  define ks where "ks = ''skip''"
  have p: "parse_param q kl = Some 7" and p': "parse_param q' ks = Some 20"
    unfolding q_def q'_def kl_def ks_def by code_simp+
  have a: "map_of q ks = None" and a': "map_of q' kl = None"
    by (simp_all add: q_def q'_def kl_def ks_def)
  have t: "(\<forall>n. parse_param q kl = Some n \<and> 0 < n \<longrightarrow>
        limit_of q = min n 200 \<and> 1 \<le> limit_of q) \<and>
      (map_of q ks = None \<longrightarrow> skip_of q = 0)"
    using limit_skip_parsing [of q] unfolding kl_def ks_def by (elim conjE) (intro conjI)
  have t': "(map_of q' kl = None \<longrightarrow> limit_of q' = 50) \<and>
      (\<forall>n. parse_param q' ks = Some n \<and> 0 \<le> n \<longrightarrow> skip_of q' = n)"
    using limit_skip_parsing [of q'] unfolding kl_def ks_def by (elim conjE) (intro conjI)
  have "limit_of q = 7" and "skip_of q = 0"
    using t p a by simp_all
  moreover have "skip_of q' = 20" and "limit_of q' = 50"
    using t' p' a' by simp_all
  ultimately show ?thesis
    using p a p' a' unfolding q_def q'_def kl_def ks_def by (intro conjI)
qed

text \<open>
  C8, as stated, fails on a negative limit: with six records and \<^verbatim>\<open>limit=-5\<close> the limit
  in force is \<open>-5\<close> and the listing holds five records, more than the limit, and not
  the six that the default limit of 50 would give.
\<close>

theorem negative_limit_lists_five:
  "get_api_logs (Available 101) [(''limit'', QStr ''-5'')]
     [sample 1 False, sample 2 False, sample 3 False, sample 4 False, sample 5 False, sample 6 False] =
   [Respond 200 (LogsBody [sample 6 False, sample 5 False, sample 4 False, sample 3 False, sample 2 False] 6)] \<and>
   limit_of [(''limit'', QStr ''-5'')] = - 5 \<and>
   \<not> int (length [sample 6 False, sample 5 False, sample 4 False, sample 3 False, sample 2 False])
        \<le> limit_of [(''limit'', QStr ''-5'')] \<and>
   length [sample 6 False, sample 5 False, sample 4 False, sample 3 False, sample 2 False] <
     length [sample 1 False, sample 2 False, sample 3 False, sample 4 False, sample 5 False, sample 6 False]"
  unfolding six_samples_listed limit_minus_5 by simp

text \<open>
  C8, amended. In every successful listing the total is the number of records of the
  whole collection, whatever their age; the logs are records of the collection, newest
  first; the skip is not negative; and when the limit in force is positive (the
  parameter absent, unreadable, zero or positive) the logs are the collection sorted by
  descending timestamp, without its first skip records, cut to the limit, so at most
  limit records. With a positive limit and a skip from 0 to below \<open>2 ^ 31\<close> the listing
  succeeds whenever the store answers. Three records written at increasing times come
  back newest first when no parameter is given.
\<close>

theorem logs_listing_newest_first:
  assumes "Respond 200 (LogsBody logs n) \<in> set (get_api_logs status query coll)"
  shows "n = length coll \<and>
         sorted_wrt (\<lambda>a b. timestamp b \<le> timestamp a) logs \<and>
         set logs \<subseteq> set coll \<and>
         0 \<le> skip_of query \<and>
         (0 < limit_of query \<longrightarrow>
            logs = take (nat (limit_of query)) (drop (nat (skip_of query)) (sort_desc coll)) \<and>
            int (length logs) \<le> limit_of query) \<and>
         (\<forall>cap query' coll'. 0 \<le> skip_of query' \<and> skip_of query' < 2 ^ 31 \<and> 0 < limit_of query' \<longrightarrow>
            get_api_logs (Available cap) query' coll' =
              [Respond 200 (LogsBody (take (nat (limit_of query')) (drop (nat (skip_of query')) (sort_desc coll')))
                              (length coll'))]) \<and>
         (\<forall>cap r1 r2 r3. timestamp r1 < timestamp r2 \<and> timestamp r2 < timestamp r3 \<longrightarrow>
              get_api_logs (Available cap) [] [r1, r2, r3] =
                [Respond 200 (LogsBody [r3, r2, r1] 3)])"
proof -
  from assms obtain cap where sk: "0 \<le> skip_of query"
    and logs: "logs = db_limit cap (limit_of query) (drop (nat (skip_of query)) (sort_desc coll))"
    and n: "n = length coll"
    by (rule logs_response)
  obtain k where k: "logs = take k (drop (nat (skip_of query)) (sort_desc coll))"
    and kp: "0 < limit_of query \<longrightarrow> k = nat (limit_of query)"
    using db_limit_prefix [OF limit_of_nonzero, of cap query "drop (nat (skip_of query)) (sort_desc coll)"]
    unfolding logs by blast
  have "sorted_wrt (\<lambda>a b. timestamp b \<le> timestamp a) (drop (nat (skip_of query)) (sort_desc coll))"
    using sorted_sort_desc by (rule sorted_wrt_drop)
  then have srt: "sorted_wrt (\<lambda>a b. timestamp b \<le> timestamp a) logs"
    unfolding k by (rule sorted_wrt_take)
  have "set logs \<subseteq> set (sort_desc coll)"
    unfolding k using set_take_subset set_drop_subset by (rule subset_trans)
  then have sub: "set logs \<subseteq> set coll"
    by (simp add: set_sort_desc)
  have pos: "logs = take (nat (limit_of query)) (drop (nat (skip_of query)) (sort_desc coll)) \<and>
            int (length logs) \<le> limit_of query" if "0 < limit_of query"
  proof -
    have e: "logs = take (nat (limit_of query)) (drop (nat (skip_of query)) (sort_desc coll))"
      using k kp that by simp
    have "length logs \<le> nat (limit_of query)"
      by (subst e) simp
    then have "int (length logs) \<le> limit_of query"
      using that by linarith
    with e show ?thesis ..
  qed
  show ?thesis
  proof (intro conjI)
    show "n = length coll" by (rule n)
    show "sorted_wrt (\<lambda>a b. timestamp b \<le> timestamp a) logs" by (rule srt)
    show "set logs \<subseteq> set coll" by (rule sub)
    show "0 \<le> skip_of query" by (rule sk)
    show "0 < limit_of query \<longrightarrow>
            logs = take (nat (limit_of query)) (drop (nat (skip_of query)) (sort_desc coll)) \<and>
            int (length logs) \<le> limit_of query"
      using pos by (rule impI)
    show "\<forall>cap query' coll'. 0 \<le> skip_of query' \<and> skip_of query' < 2 ^ 31 \<and> 0 < limit_of query' \<longrightarrow>
            get_api_logs (Available cap) query' coll' =
              [Respond 200 (LogsBody (take (nat (limit_of query')) (drop (nat (skip_of query')) (sort_desc coll')))
                              (length coll'))]"
      using get_api_logs_page by blast
    show "\<forall>cap r1 r2 r3. timestamp r1 < timestamp r2 \<and> timestamp r2 < timestamp r3 \<longrightarrow>
              get_api_logs (Available cap) [] [r1, r2, r3] =
                [Respond 200 (LogsBody [r3, r2, r1] 3)]"
      using logs_three by blast
  qed
qed

theorem logs_listing_newest_first_witness:
  "Respond 200 (LogsBody [sample 3 False, sample 2 True] 4) \<in>
     set (get_api_logs (Available 101) [(''limit'', QStr ''2''), (''skip'', QStr ''1'')]
            [sample 1 False, sample 2 True, sample 3 False, sample 4 True]) \<and>
   limit_of [(''limit'', QStr ''2''), (''skip'', QStr ''1'')] = 2 \<and>
   skip_of [(''limit'', QStr ''2''), (''skip'', QStr ''1'')] = 1 \<and>
   [sample 3 False, sample 2 True] =
     take 2 (drop 1 (sort_desc [sample 1 False, sample 2 True, sample 3 False, sample 4 True])) \<and>
   int (length [sample 3 False, sample 2 True]) \<le> 2 \<and>
   timestamp (sample 1 False) < timestamp (sample 2 True) \<and>
   timestamp (sample 2 True) < timestamp (sample 3 False) \<and>
   get_api_logs (Available 101) [] [sample 1 False, sample 2 True, sample 3 False] =
     [Respond 200 (LogsBody [sample 3 False, sample 2 True, sample 1 False] 3)]"
proof -
  define q where "q = [(''limit'', QStr ''2''), (''skip'', QStr ''1'')]"
  define coll where "coll = [sample 1 False, sample 2 True, sample 3 False, sample 4 True]"
  define r1 where "r1 = sample 1 False"
  define r2 where "r2 = sample 2 True"
  define r3 where "r3 = sample 3 False"
  have l: "limit_of q = 2" and s: "skip_of q = 1"
    by (simp_all add: q_def limit_2_skip_1)
  have srt: "sort_desc coll = rev coll"
    by (rule sort_desc_ascending) (simp add: coll_def sample_sel)
  have "get_api_logs (Available 101) q coll =
          [Respond 200 (LogsBody (take (nat (limit_of q)) (drop (nat (skip_of q)) (sort_desc coll)))
                          (length coll))]"
    by (rule get_api_logs_page) (simp_all add: l s)
  then have run: "get_api_logs (Available 101) q coll = [Respond 200 (LogsBody [r3, r2] 4)]"
    unfolding l s srt by (simp add: coll_def r2_def r3_def)
  then have r: "Respond 200 (LogsBody [r3, r2] 4) \<in> set (get_api_logs (Available 101) q coll)"
    by simp
  note t = logs_listing_newest_first [OF r]
  have pos: "0 < limit_of q \<longrightarrow>
            [r3, r2] = take (nat (limit_of q)) (drop (nat (skip_of q)) (sort_desc coll)) \<and>
            int (length [r3, r2]) \<le> limit_of q"
    using t by (elim conjE)
  have three: "\<forall>cap r1 r2 r3. timestamp r1 < timestamp r2 \<and> timestamp r2 < timestamp r3 \<longrightarrow>
              get_api_logs (Available cap) [] [r1, r2, r3] =
                [Respond 200 (LogsBody [r3, r2, r1] 3)]"
    using t by (elim conjE)
  have page: "[r3, r2] = take 2 (drop 1 (sort_desc coll)) \<and> int (length [r3, r2]) \<le> 2"
    using pos by (simp add: l s)
  have lt: "timestamp r1 < timestamp r2 \<and> timestamp r2 < timestamp r3"
    by (simp add: r1_def r2_def r3_def sample_sel)
  with three have "get_api_logs (Available 101) [] [r1, r2, r3] =
                [Respond 200 (LogsBody [r3, r2, r1] 3)]"
    by blast
  with r l s page lt show ?thesis
    unfolding q_def coll_def r1_def r2_def r3_def by (intro conjI) simp_all
qed

end
